theory Spec2Isabelle
  imports Main "HOL-Library.Word"
begin

section \<open>Strings: the parts of Go's \<^verbatim>\<open>strings\<close>, \<^verbatim>\<open>strconv\<close> and \<^verbatim>\<open>fmt\<close> the code calls\<close>

text \<open>
  A Go string is a byte sequence; it is modelled as a \<^typ>\<open>string\<close> (a list of 8-bit
  characters). The delimiter \<^verbatim>\<open>Comma\<close> is a rune in the source; it is modelled as one
  byte, that is, an ASCII delimiter. Case folding, upper-case detection and white space are
  modelled for ASCII bytes; bytes above 127 are left alone.
\<close>

definition HasSuffix :: "string \<Rightarrow> string \<Rightarrow> bool" where
  "HasSuffix s suffix =
     (length suffix \<le> length s \<and> drop (length s - length suffix) s = suffix)"

definition HasPrefix :: "string \<Rightarrow> string \<Rightarrow> bool" where
  "HasPrefix s prefix = (length prefix \<le> length s \<and> take (length prefix) s = prefix)"

definition TrimSuffix :: "string \<Rightarrow> string \<Rightarrow> string" where
  "TrimSuffix s suffix =
     (if HasSuffix s suffix then take (length s - length suffix) s else s)"

definition TrimPrefix :: "string \<Rightarrow> string \<Rightarrow> string" where
  "TrimPrefix s prefix = (if HasPrefix s prefix then drop (length prefix) s else s)"

definition ContainsRune :: "string \<Rightarrow> char \<Rightarrow> bool" where
  "ContainsRune s r = (r \<in> set s)"

text \<open>\<^verbatim>\<open>strings.Split(s, sep)\<close> for a one-byte separator: one more piece than there are
  separators, so the empty string splits into one empty piece.\<close>

fun Split :: "string \<Rightarrow> char \<Rightarrow> string list" where
  "Split [] sep = [[]]"
| "Split (c # cs) sep =
     (if c = sep then [] # Split cs sep
      else (case Split cs sep of [] \<Rightarrow> [[c]] | p # ps \<Rightarrow> (c # p) # ps))"

definition toLower :: "char \<Rightarrow> char" where
  "toLower c =
     (let n = (of_char c :: nat) in if 65 \<le> n \<and> n \<le> 90 then char_of (n + 32) else c)"

definition EqualFold :: "string \<Rightarrow> string \<Rightarrow> bool" where
  "EqualFold s t = (map toLower s = map toLower t)"

definition isSpace :: "char \<Rightarrow> bool" where
  "isSpace c = (let n = (of_char c :: nat) in (9 \<le> n \<and> n \<le> 13) \<or> n = 32)"

definition TrimSpace :: "string \<Rightarrow> string" where
  "TrimSpace s = rev (dropWhile isSpace (rev (dropWhile isSpace s)))"

section \<open>Errors\<close>

text \<open>
  The error values of the package, the \<^verbatim>\<open>NumError\<close> of \<^verbatim>\<open>strconv\<close> with its two causes,
  \<^verbatim>\<open>io.EOF\<close>, an error returned by a capability of the caller's type (\<open>ErrUser\<close>), and
  the run-time panics the code can reach: an index out of range and a panic raised inside
  \<^verbatim>\<open>reflect\<close>.
\<close>

datatype numError = ErrSyntax | ErrRange

datatype error =
    ErrNoCommasAllowedInHeader
  | ErrNoCommasAllowedInBody
  | ErrEmptySlice
  | ErrUnsupportedType
  | ErrCannotUnmarshalUnknownTypeWithoutHeader
  | errFieldNotFound
  | EOF
  | NumError numError
  | ErrUser string
  | PanicIndexOutOfRange nat nat
  | PanicReflect string

text \<open>The error kinds the specification speaks of.\<close>

datatype error_kind =
    Formatting | Parse | UnsupportedType | MissingDecoder | EmptyCollection | IO
  | Custom | Internal | Panic

fun kind_of_error :: "error \<Rightarrow> error_kind" where
  "kind_of_error ErrNoCommasAllowedInHeader = Formatting"
| "kind_of_error ErrNoCommasAllowedInBody = Formatting"
| "kind_of_error ErrEmptySlice = EmptyCollection"
| "kind_of_error ErrUnsupportedType = UnsupportedType"
| "kind_of_error ErrCannotUnmarshalUnknownTypeWithoutHeader = MissingDecoder"
| "kind_of_error errFieldNotFound = Internal"
| "kind_of_error EOF = IO"
| "kind_of_error (NumError e) = Parse"
| "kind_of_error (ErrUser m) = Custom"
| "kind_of_error (PanicIndexOutOfRange i n) = Panic"
| "kind_of_error (PanicReflect m) = Panic"

section \<open>Numbers and booleans as text\<close>

definition digit :: "nat \<Rightarrow> char" where
  "digit d = ''0123456789'' ! d"

definition isDigit :: "char \<Rightarrow> bool" where
  "isDigit c = (let n = (of_char c :: nat) in 48 \<le> n \<and> n \<le> 57)"

definition digitVal :: "char \<Rightarrow> nat" where
  "digitVal c = (of_char c :: nat) - 48"

text \<open>\<^verbatim>\<open>fmt.Sprint\<close> of an unsigned and of a signed integer: base 10, a minus sign for a
  negative number.\<close>

fun formatUint :: "nat \<Rightarrow> string" where
  "formatUint n = (if n < 10 then [digit n] else formatUint (n div 10) @ [digit (n mod 10)])"

declare formatUint.simps [simp del]

definition formatInt :: "int \<Rightarrow> string" where
  "formatInt i = (if i < 0 then CHR ''-'' # formatUint (nat (- i)) else formatUint (nat i))"

definition formatBool :: "bool \<Rightarrow> string" where
  "formatBool b = (if b then ''true'' else ''false'')"

text \<open>
  \<^verbatim>\<open>strconv.ParseUint(s, 10, 64)\<close>: the digit loop of the library, with its two overflow
  checks; a byte that is not a digit is a syntax error at once (base 10 accepts no
  underscore).
\<close>

fun parseUintLoop :: "nat \<Rightarrow> string \<Rightarrow> numError + nat" where
  "parseUintLoop n [] = Inr n"
| "parseUintLoop n (c # cs) =
     (if \<not> isDigit c then Inl ErrSyntax
      else if n \<ge> (2 ^ 64 - 1) div 10 + 1 then Inl ErrRange
      else (let n1 = n * 10 + digitVal c
            in if n1 > 2 ^ 64 - 1 then Inl ErrRange else parseUintLoop n1 cs))"

definition ParseUint :: "string \<Rightarrow> numError + nat" where
  "ParseUint s = (if s = [] then Inl ErrSyntax else parseUintLoop 0 s)"

text \<open>
  \<^verbatim>\<open>strconv.ParseInt(s, 10, 64)\<close>: an optional sign, then \<^verbatim>\<open>ParseUint\<close>; a range error
  of \<^verbatim>\<open>ParseUint\<close> leaves the maximal value, which the cut-off test then rejects as a range
  error as well.
\<close>

definition ParseInt :: "string \<Rightarrow> numError + int" where
  "ParseInt s =
     (if s = [] then Inl ErrSyntax
      else (let neg = (hd s = CHR ''-'');
                s1 = (if hd s = CHR ''+'' \<or> hd s = CHR ''-'' then tl s else s)
            in (case ParseUint s1 of
                  Inl e \<Rightarrow> Inl e
                | Inr un \<Rightarrow>
                    if \<not> neg \<and> un \<ge> 2 ^ 63 then Inl ErrRange
                    else if neg \<and> un > 2 ^ 63 then Inl ErrRange
                    else Inr (if neg then - int un else int un))))"

definition ParseBool :: "string \<Rightarrow> numError + bool" where
  "ParseBool s =
     (if s \<in> set [''1'', ''t'', ''T'', ''TRUE'', ''true'', ''True''] then Inr True
      else if s \<in> set [''0'', ''f'', ''F'', ''FALSE'', ''false'', ''False''] then Inr False
      else Inl ErrSyntax)"

text \<open>
  Floating point is not part of HOL. A \<^verbatim>\<open>float64\<close> is carried as its 64-bit pattern, a
  complex number as two of them, and the library functions that format and parse them are
  parameters of the model.
\<close>

record floats =
  FormatFloat :: "64 word \<Rightarrow> string"
  ParseFloat :: "string \<Rightarrow> numError + 64 word"
  ParseComplex :: "string \<Rightarrow> numError + (64 word \<times> 64 word)"
  toFloat32 :: "64 word \<Rightarrow> 64 word"

section \<open>Types and values as \<^verbatim>\<open>reflect\<close> sees them\<close>

datatype kind =
    InvalidK | BoolK
  | IntK | Int8K | Int16K | Int32K | Int64K
  | UintK | Uint8K | Uint16K | Uint32K | Uint64K | UintptrK
  | Float32K | Float64K | Complex64K | Complex128K
  | ArrayK | ChanK | FuncK | InterfaceK | MapK | PointerK | SliceK | StringK | StructK
  | UnsafePointerK

text \<open>A value without its type: a pointer is nil or owns its pointee; a struct is the
  list of its field values.\<close>

datatype gval =
    BoolV bool
  | IntV int
  | UintV nat
  | FloatV "64 word"
  | ComplexV "64 word" "64 word"
  | StringV string
  | PtrV "gval option"
  | StructV "gval list"
  | OtherV

text \<open>
  The two per-field capabilities, looked up in the method set of a field's type:
  \<^verbatim>\<open>String() string\<close> and \<^verbatim>\<open>Parse(string) (interface{}, error)\<close>. Each receives the
  field's current value; \<^verbatim>\<open>Parse\<close> returns an error message or the new value.
\<close>

record methods =
  Stringer :: "(gval \<Rightarrow> string) option"
  Parser :: "(gval \<Rightarrow> string \<Rightarrow> string + gval) option"

definition noMethods :: methods where
  "noMethods = \<lparr>Stringer = None, Parser = None\<rparr>"

text \<open>A type: its kind, the types below it (the pointee of a pointer, the field types of a
  struct) and its method set.\<close>

datatype gtype = GType (Kind: kind) (Elems: "gtype list") (Methods: methods)

text \<open>\<^verbatim>\<open>reflect.StructField\<close>: the declared name, the value of the \<^verbatim>\<open>csv\<close> key of the tag
  (\<open>None\<close> when the tag has no such key), the embedded marker and the type.\<close>

record StructField =
  Name :: string
  Tag :: "string option"
  Anonymous :: bool
  Type :: gtype

definition Tag_Get :: "StructField \<Rightarrow> string" where
  "Tag_Get field = (case Tag field of None \<Rightarrow> [] | Some t \<Rightarrow> t)"

definition Tag_Lookup :: "StructField \<Rightarrow> string \<times> bool" where
  "Tag_Lookup field = (case Tag field of None \<Rightarrow> ([], False) | Some t \<Rightarrow> (t, True))"

definition IsExported :: "StructField \<Rightarrow> bool" where
  "IsExported field =
     (case Name field of [] \<Rightarrow> False
      | c # cs \<Rightarrow> (let n = (of_char c :: nat) in 65 \<le> n \<and> n \<le> 90))"

section \<open>The field resolver of the reader\<close>

text \<open>The two loops of \<^verbatim>\<open>getField\<close>, each with its running index.\<close>

fun getField_tag :: "nat \<Rightarrow> StructField list \<Rightarrow> string \<Rightarrow> nat option" where
  "getField_tag i [] attr = None"
| "getField_tag i (f # fs) attr =
     (if Tag_Get f = attr then Some i else getField_tag (Suc i) fs attr)"

fun getField_name :: "nat \<Rightarrow> StructField list \<Rightarrow> string \<Rightarrow> nat option" where
  "getField_name i [] attr = None"
| "getField_name i (f # fs) attr =
     (if (Name f = attr \<or> EqualFold (Name f) attr) \<and> \<not> snd (Tag_Lookup f)
      then Some i else getField_name (Suc i) fs attr)"

definition getField :: "StructField list \<Rightarrow> string \<Rightarrow> error + nat" where
  "getField fs attr =
     (case getField_tag 0 fs attr of
        Some i \<Rightarrow> Inr i
      | None \<Rightarrow>
          (case getField_name 0 fs attr of
             Some i \<Rightarrow> Inr i
           | None \<Rightarrow> Inl errFieldNotFound))"

section \<open>Decoding one cell: \<^verbatim>\<open>setField\<close>\<close>

text \<open>The zero value of a type, as \<^verbatim>\<open>reflect.New\<close> leaves it: a nil pointer, an empty
  string, zero, false, and field by field for a struct.\<close>

fun zero :: "gtype \<Rightarrow> gval" where
  "zero (GType k ts m) =
     (if k = BoolK then BoolV False
      else if k \<in> {IntK, Int8K, Int16K, Int32K, Int64K} then IntV 0
      else if k \<in> {UintK, Uint8K, Uint16K, Uint32K, Uint64K, UintptrK} then UintV 0
      else if k \<in> {Float32K, Float64K} then FloatV 0
      else if k \<in> {Complex64K, Complex128K} then ComplexV 0 0
      else if k = StringK then StringV []
      else if k = PointerK then PtrV None
      else if k = StructK then StructV (map zero ts)
      else OtherV)"

text \<open>The width of an integer kind; \<^verbatim>\<open>int\<close> and \<^verbatim>\<open>uint\<close> are 64 bits wide (a 64-bit
  platform).\<close>

definition bits :: "kind \<Rightarrow> nat" where
  "bits k =
     (if k \<in> {Int8K, Uint8K} then 8
      else if k \<in> {Int16K, Uint16K} then 16
      else if k \<in> {Int32K, Uint32K} then 32
      else 64)"

text \<open>\<^verbatim>\<open>SetInt\<close> and \<^verbatim>\<open>SetUint\<close> store a 64-bit number into a narrower field by
  truncation; \<^verbatim>\<open>SetFloat\<close> and \<^verbatim>\<open>SetComplex\<close> round to 32 bits for the narrow kinds.\<close>

definition SetInt :: "kind \<Rightarrow> int \<Rightarrow> gval" where
  "SetInt k x = IntV (signed_take_bit (bits k - 1) x)"

definition SetUint :: "kind \<Rightarrow> nat \<Rightarrow> gval" where
  "SetUint k x = UintV (take_bit (bits k) x)"

definition SetFloat :: "floats \<Rightarrow> kind \<Rightarrow> 64 word \<Rightarrow> gval" where
  "SetFloat fl k x = FloatV (if k = Float32K then toFloat32 fl x else x)"

definition SetComplex :: "floats \<Rightarrow> kind \<Rightarrow> 64 word \<times> 64 word \<Rightarrow> gval" where
  "SetComplex fl k z =
     (if k = Complex64K then ComplexV (toFloat32 fl (fst z)) (toFloat32 fl (snd z))
      else ComplexV (fst z) (snd z))"

text \<open>
  \<^verbatim>\<open>v.Elem().Kind()\<close> of a pointer-typed field: a nil pointer has the zero \<^verbatim>\<open>Value\<close> as its
  \<^verbatim>\<open>Elem\<close>, whose kind is \<^verbatim>\<open>Invalid\<close>.
\<close>

definition ElemKind :: "gtype \<Rightarrow> gval \<Rightarrow> kind" where
  "ElemKind t v =
     (case v of
        PtrV (Some p) \<Rightarrow> (case Elems t of [] \<Rightarrow> InvalidK | te # _ \<Rightarrow> Kind te)
      | _ \<Rightarrow> InvalidK)"

text \<open>
  The first half of \<^verbatim>\<open>setField\<close>: the \<^verbatim>\<open>Parser\<close> capability. The item is the list of the
  field values of the struct under construction. \<^verbatim>\<open>Interface()\<close> panics on a field that
  is not exported; storing through a nil pointer (\<^verbatim>\<open>Elem().Set\<close> on the zero \<^verbatim>\<open>Value\<close>)
  panics. \<^verbatim>\<open>Parse\<close> is taken to return a value of the type it is stored into.
\<close>

definition setField_parser ::
  "StructField list \<Rightarrow> gval list \<Rightarrow> nat \<Rightarrow> string \<Rightarrow> error + gval list" where
  "setField_parser fs item field value =
     (if \<not> (field < length fs \<and> field < length item)
      then Inl (PanicReflect ''reflect: Field index out of range'')
      else if \<not> IsExported (fs ! field)
      then Inl (PanicReflect ''reflect.Value.Interface: unexported field'')
      else (case Parser (Methods (Type (fs ! field))) of
              None \<Rightarrow> Inr item
            | Some parse \<Rightarrow>
                (case parse (item ! field) value of
                   Inl err \<Rightarrow> Inl (ErrUser err)
                 | Inr newItem \<Rightarrow>
                     if Kind (Type (fs ! field)) = PointerK
                     then (case item ! field of
                             PtrV (Some p) \<Rightarrow> Inr (item[field := PtrV (Some newItem)])
                           | _ \<Rightarrow> Inl (PanicReflect ''reflect.Value.Set on zero Value''))
                     else Inr (item[field := newItem]))))"

text \<open>
  The second half: the switch over the kind. In a pointer field the code stores the parsed
  number itself into the pointer-typed field, which \<^verbatim>\<open>reflect\<close> refuses with a panic
  (the value is not assignable to the pointer type).
\<close>

definition notAssignable :: error where
  "notAssignable = PanicReflect ''reflect.Set: value is not assignable to pointer type''"

definition setField_switch ::
  "floats \<Rightarrow> StructField list \<Rightarrow> gval list \<Rightarrow> nat \<Rightarrow> string \<Rightarrow> error + gval list" where
  "setField_switch fl fs item field value =
     (let t = Type (fs ! field);
          isPointer = (Kind t = PointerK);
          fieldKind = (if isPointer then ElemKind t (item ! field) else Kind t)
      in if fieldKind \<in> {IntK, Int8K, Int16K, Int32K, Int64K} then
           (case ParseInt (TrimSpace value) of
              Inl err \<Rightarrow> Inl (NumError err)
            | Inr val \<Rightarrow>
                if \<not> isPointer then Inr (item[field := SetInt fieldKind val])
                else Inl notAssignable)
         else if fieldKind \<in> {UintK, Uint8K, Uint16K, Uint32K, Uint64K} then
           (case ParseUint (TrimSpace value) of
              Inl err \<Rightarrow> Inl (NumError err)
            | Inr val \<Rightarrow>
                if \<not> isPointer then Inr (item[field := SetUint fieldKind val])
                else Inl notAssignable)
         else if fieldKind = BoolK then
           (case ParseBool (TrimSpace value) of
              Inl err \<Rightarrow> Inl (NumError err)
            | Inr val \<Rightarrow>
                if \<not> isPointer then Inr (item[field := BoolV val])
                else Inl notAssignable)
         else if fieldKind \<in> {Float32K, Float64K} then
           (case ParseFloat fl (TrimSpace value) of
              Inl err \<Rightarrow> Inl (NumError err)
            | Inr val \<Rightarrow>
                if \<not> isPointer then Inr (item[field := SetFloat fl fieldKind val])
                else Inl notAssignable)
         else if fieldKind \<in> {Complex64K, Complex128K} then
           (case ParseComplex fl (TrimSpace value) of
              Inl err \<Rightarrow> Inl (NumError err)
            | Inr val \<Rightarrow>
                if \<not> isPointer then Inr (item[field := SetComplex fl fieldKind val])
                else Inl notAssignable)
         else if fieldKind = StringK then
           (let val = TrimPrefix (TrimSuffix value [CHR 0x22]) [CHR 0x22]
            in if \<not> isPointer then Inr (item[field := StringV val])
               else Inl notAssignable)
         else Inr item)"

definition setField ::
  "floats \<Rightarrow> StructField list \<Rightarrow> gval list \<Rightarrow> nat \<Rightarrow> string \<Rightarrow> error + gval list" where
  "setField fl fs item field value =
     (case setField_parser fs item field value of
        Inl err \<Rightarrow> Inl err
      | Inr item1 \<Rightarrow> setField_switch fl fs item1 field value)"

section \<open>The reader\<close>

abbreviation EOL :: char where
  "EOL \<equiv> CHR 0x0A"

record config =
  WithHeader :: bool
  Comma :: char
  UseCRLF :: bool

record reader = config +
  unread :: string

definition NewReader :: "string \<Rightarrow> reader" where
  "NewReader r = \<lparr>WithHeader = True, Comma = CHR '','', UseCRLF = False, unread = r\<rparr>"

text \<open>
  \<^verbatim>\<open>bufio.Reader.ReadString(delim)\<close> over the unread bytes: the bytes up to and including
  the first delimiter; without a delimiter, all the bytes that are left, with \<^verbatim>\<open>io.EOF\<close>.
  The third component is what stays unread.
\<close>

definition ReadString :: "string \<Rightarrow> char \<Rightarrow> string \<times> error option \<times> string" where
  "ReadString buf delim =
     (if delim \<in> set buf
      then (takeWhile (\<lambda>c. c \<noteq> delim) buf @ [delim], None,
            tl (dropWhile (\<lambda>c. c \<noteq> delim) buf))
      else (buf, Some EOF, []))"

text \<open>
  The element type of the collection: the fields \<^verbatim>\<open>reflect.VisibleFields\<close> lists (the
  direct fields of the struct, in declaration order; fields promoted from embedded structs
  are not modelled) and the four record-level capabilities, as the method set the code
  asserts on has them. A decoder receives the cells and the field values of the record
  under construction and returns an error message or the new field values; an encoder
  receives the element (a struct, or a pointer to one).
\<close>

record elemType =
  VisibleFields :: "StructField list"
  UnmarshalCSV :: "(string list \<Rightarrow> gval list \<Rightarrow> string + gval list) option"
  UnmarshalCSVWithHeader ::
    "(string list \<Rightarrow> string list \<Rightarrow> gval list \<Rightarrow> string + gval list) option"
  Header :: "(gval \<Rightarrow> string list) option"
  MarshalCSV :: "(gval \<Rightarrow> string list) option"

definition New :: "elemType \<Rightarrow> gval list" where
  "New T = map (\<lambda>f. zero (Type f)) (VisibleFields T)"

text \<open>The three statements that turn a line into cells: cut the line terminator, cut one
  trailing delimiter, split at the delimiter.\<close>

definition splitLine :: "'a config_scheme \<Rightarrow> string \<Rightarrow> string list" where
  "splitLine r line =
     (let line1 = (if UseCRLF r then TrimSuffix line [CHR 0x0D, EOL]
                   else TrimSuffix line [EOL]);
          line2 = TrimSuffix line1 [Comma r]
      in Split line2 (Comma r))"

text \<open>The loop over the header columns, with its index \<open>i\<close>; \<^verbatim>\<open>values[i]\<close> panics when the
  row has no cell at that position.\<close>

fun bindFields ::
  "floats \<Rightarrow> StructField list \<Rightarrow> nat \<Rightarrow> string list \<Rightarrow> string list \<Rightarrow> gval list
     \<Rightarrow> error + gval list" where
  "bindFields fl fs i [] values item = Inr item"
| "bindFields fl fs i (attr # attrs) values item =
     (case getField fs attr of
        Inl err \<Rightarrow>
          if err = errFieldNotFound then bindFields fl fs (Suc i) attrs values item
          else Inl err
      | Inr field \<Rightarrow>
          if \<not> i < length values then Inl (PanicIndexOutOfRange i (length values))
          else (case setField fl fs item field (values ! i) of
                  Inl err \<Rightarrow> Inl err
                | Inr item1 \<Rightarrow> bindFields fl fs (Suc i) attrs values item1))"

text \<open>The body of the row loop after the split: the header-free decoder when header mode is
  off, then the header-aware decoder or the field-by-field binding.\<close>

definition readRow ::
  "floats \<Rightarrow> 'a config_scheme \<Rightarrow> elemType \<Rightarrow> string list \<Rightarrow> string list \<Rightarrow> error + gval list"
  where
  "readRow fl r T attrs values =
     (let item = New T;
          step1 =
            (if \<not> WithHeader r then
               (case UnmarshalCSV T of
                  Some unm \<Rightarrow>
                    (case unm values item of Inl err \<Rightarrow> Inl (ErrUser err) | Inr it \<Rightarrow> Inr it)
                | None \<Rightarrow> Inl ErrCannotUnmarshalUnknownTypeWithoutHeader)
             else Inr item)
      in (case step1 of
            Inl err \<Rightarrow> Inl err
          | Inr item1 \<Rightarrow>
              (case UnmarshalCSVWithHeader T of
                 Some unm \<Rightarrow>
                   (case unm values attrs item1 of
                      Inl err \<Rightarrow> Inl (ErrUser err)
                    | Inr it \<Rightarrow> Inr it)
               | None \<Rightarrow> bindFields fl (VisibleFields T) 0 attrs values item1)))"

text \<open>
  The row loop. The records read so far are \<open>result\<close>; the second component of the value
  is what the loop leaves unread. End of input ends the loop, whatever bytes came with it.
\<close>

function readRows ::
  "floats \<Rightarrow> 'a config_scheme \<Rightarrow> elemType \<Rightarrow> string list \<Rightarrow> string \<Rightarrow> gval list
     \<Rightarrow> (error + gval list) \<times> string" where
  "readRows fl r T attrs buf result =
     (case ReadString buf EOL of
        (line, Some err, rest) \<Rightarrow>
          if err = EOF then (Inr result, rest) else (Inl err, rest)
      | (line, None, rest) \<Rightarrow>
          (case readRow fl r T attrs (splitLine r line) of
             Inl err \<Rightarrow> (Inl err, rest)
           | Inr item \<Rightarrow> readRows fl r T attrs rest (result @ [StructV item])))"
  by pat_completeness auto
termination
  apply (relation "measure (\<lambda>(fl, r, T, attrs, buf, result). length buf)")
   apply simp
  apply (auto simp: ReadString_def split: if_splits)
  subgoal for fl r T attrs buf item
    using length_dropWhile_le [of "\<lambda>c. c \<noteq> EOL" buf]
    by (cases "dropWhile (\<lambda>c. c \<noteq> EOL) buf") auto
  done

declare readRows.simps [simp del]

text \<open>\<^verbatim>\<open>ReadCSV\<close>: the result (an error, or the collection the call stores into its argument)
  and the bytes left unread.\<close>

definition ReadCSV :: "floats \<Rightarrow> reader \<Rightarrow> elemType \<Rightarrow> (error + gval list) \<times> string" where
  "ReadCSV fl r T =
     (if WithHeader r then
        (case ReadString (unread r) EOL of
           (header, Some err, rest) \<Rightarrow> (Inl err, rest)
         | (header, None, rest) \<Rightarrow> readRows fl r T (splitLine r header) rest [])
      else readRows fl r T [] (unread r) [])"

section \<open>The writer\<close>

text \<open>
  The buffered writer: \<open>buffered\<close> holds the bytes written and not yet flushed,
  \<open>written\<close> the bytes that reached the sink. The sink is in memory, so a write never
  fails, and the buffer is taken to be large enough never to flush by itself.
\<close>

record writer = config +
  buffered :: string
  written :: string

definition NewWriter :: writer where
  "NewWriter =
     \<lparr>WithHeader = True, Comma = CHR '','', UseCRLF = False, buffered = [], written = []\<rparr>"

definition WriteString :: "writer \<Rightarrow> string \<Rightarrow> writer" where
  "WriteString w s = w\<lparr>buffered := buffered w @ s\<rparr>"

definition WriteRune :: "writer \<Rightarrow> char \<Rightarrow> writer" where
  "WriteRune w c = WriteString w [c]"

definition Flush :: "writer \<Rightarrow> writer" where
  "Flush w = w\<lparr>written := written w @ buffered w, buffered := []\<rparr>"

definition illTyped :: error where
  "illTyped = PanicReflect ''reflect: value of another kind''"

definition zeroValue :: error where
  "zeroValue = PanicReflect ''reflect: call on zero Value''"

text \<open>\<^verbatim>\<open>getString\<close>: the \<^verbatim>\<open>Stringer\<close> capability first, then the switch over the kind, in
  the order of the source. There is no case for the two complex kinds.\<close>

fun getString :: "floats \<Rightarrow> gtype \<Rightarrow> gval \<Rightarrow> error + string" where
  "getString fl t v =
     (case Stringer (Methods t) of
        Some stringer \<Rightarrow> Inr (stringer v)
      | None \<Rightarrow>
          if Kind t = StringK then
            (case v of StringV s \<Rightarrow> Inr s | _ \<Rightarrow> Inl illTyped)
          else if Kind t \<in> {IntK, Int8K, Int16K, Int32K, Int64K} then
            (case v of IntV i \<Rightarrow> Inr (formatInt i) | _ \<Rightarrow> Inl illTyped)
          else if Kind t \<in> {UintK, Uint8K, Uint16K, Uint32K, Uint64K} then
            (case v of UintV n \<Rightarrow> Inr (formatUint n) | _ \<Rightarrow> Inl illTyped)
          else if Kind t \<in> {Float32K, Float64K} then
            (case v of FloatV x \<Rightarrow> Inr (FormatFloat fl x) | _ \<Rightarrow> Inl illTyped)
          else if Kind t = BoolK then
            (case v of BoolV b \<Rightarrow> Inr (formatBool b) | _ \<Rightarrow> Inl illTyped)
          else if Kind t = PointerK then
            (case v of
               PtrV None \<Rightarrow> Inl zeroValue
             | PtrV (Some p) \<Rightarrow>
                 (case Elems t of [] \<Rightarrow> Inl illTyped | te # _ \<Rightarrow> getString fl te p)
             | _ \<Rightarrow> Inl illTyped)
          else Inl ErrUnsupportedType)"

declare getString.simps [simp del]

text \<open>\<^verbatim>\<open>elem.FieldByName(name)\<close>: the first field of that name, with its type.\<close>

fun FieldByName :: "StructField list \<Rightarrow> gval list \<Rightarrow> string \<Rightarrow> (gtype \<times> gval) option" where
  "FieldByName (f # fs) (v # vs) name =
     (if Name f = name then Some (Type f, v) else FieldByName fs vs name)"
| "FieldByName fs vs name = None"

text \<open>The loop over cells a capability returned; the header loop and the body loop differ
  in the error only.\<close>

fun writeNames :: "error \<Rightarrow> writer \<Rightarrow> nat \<Rightarrow> string list \<Rightarrow> error option \<times> writer" where
  "writeNames err w i [] = (None, w)"
| "writeNames err w i (name # names) =
     (let w1 = (if i > 0 then WriteRune w (Comma w) else w)
      in if ContainsRune name (Comma w) then (Some err, w1)
         else writeNames err (WriteString w1 name) (Suc i) names)"

text \<open>The field loop of \<^verbatim>\<open>writeHeader\<close>; \<open>i\<close> counts the names written.\<close>

fun writeHeader_fields :: "writer \<Rightarrow> nat \<Rightarrow> StructField list \<Rightarrow> error option \<times> writer" where
  "writeHeader_fields w i [] = (None, w)"
| "writeHeader_fields w i (f # fs) =
     (if Anonymous f \<or> \<not> IsExported f then writeHeader_fields w i fs
      else (case Tag_Lookup f of
              (tag, ok) \<Rightarrow>
                if ok \<and> tag = ''-'' then writeHeader_fields w i fs
                else if ok \<and> ContainsRune tag (Comma w)
                then (Some ErrNoCommasAllowedInHeader, w)
                else (let headerName = (if ok then tag else Name f);
                          w1 = (if i > 0 then WriteRune w (Comma w) else w)
                      in writeHeader_fields (WriteString w1 headerName) (Suc i) fs)))"

text \<open>Following pointers until the value is no pointer; a nil pointer leaves the zero
  \<^verbatim>\<open>Value\<close>.\<close>

fun indirectAll :: "gval \<Rightarrow> gval option" where
  "indirectAll (PtrV None) = None"
| "indirectAll (PtrV (Some p)) = indirectAll p"
| "indirectAll v = Some v"

definition writeHeader :: "writer \<Rightarrow> elemType \<Rightarrow> gval list \<Rightarrow> error option \<times> writer" where
  "writeHeader w T arr =
     (if length arr = 0 then (Some ErrEmptySlice, w)
      else (case Header T of
              Some mar \<Rightarrow> writeNames ErrNoCommasAllowedInHeader w 0 (mar (arr ! 0))
            | None \<Rightarrow>
                (case indirectAll (arr ! 0) of
                   None \<Rightarrow> (Some zeroValue, w)
                 | Some (StructV vs) \<Rightarrow> writeHeader_fields w 0 (VisibleFields T)
                 | Some _ \<Rightarrow> (Some illTyped, w))))"

text \<open>The field loop of \<^verbatim>\<open>writeElem\<close>; \<open>elem\<close> is the struct, or nothing when the element
  is a nil pointer; \<open>all\<close> is the whole field list, which \<^verbatim>\<open>FieldByName\<close> searches.\<close>

fun writeElem_fields ::
  "floats \<Rightarrow> writer \<Rightarrow> StructField list \<Rightarrow> gval list option \<Rightarrow> nat \<Rightarrow> StructField list
     \<Rightarrow> error option \<times> writer" where
  "writeElem_fields fl w all elem i [] = (None, w)"
| "writeElem_fields fl w all elem i (f # fs) =
     (if ContainsRune (Name f) (Comma w) then (Some ErrNoCommasAllowedInBody, w)
      else if \<not> IsExported f then writeElem_fields fl w all elem i fs
      else if Tag_Get f = ''-'' then writeElem_fields fl w all elem i fs
      else (let w1 = (if i > 0 then WriteRune w (Comma w) else w)
            in (case elem of
                  None \<Rightarrow> (Some zeroValue, w1)
                | Some vs \<Rightarrow>
                    (case FieldByName all vs (Name f) of
                       None \<Rightarrow> (Some zeroValue, w1)
                     | Some (t, v) \<Rightarrow>
                         (case getString fl t v of
                            Inl err \<Rightarrow> (Some err, w1)
                          | Inr str \<Rightarrow>
                              writeElem_fields fl (WriteString w1 str) all elem (Suc i) fs)))))"

definition writeElem :: "floats \<Rightarrow> writer \<Rightarrow> elemType \<Rightarrow> gval \<Rightarrow> error option \<times> writer" where
  "writeElem fl w T e =
     (case MarshalCSV T of
        Some mar \<Rightarrow> writeNames ErrNoCommasAllowedInBody w 0 (mar e)
      | None \<Rightarrow>
          (case e of
             StructV vs \<Rightarrow> writeElem_fields fl w (VisibleFields T) (Some vs) 0 (VisibleFields T)
           | PtrV (Some (StructV vs)) \<Rightarrow>
               writeElem_fields fl w (VisibleFields T) (Some vs) 0 (VisibleFields T)
           | PtrV None \<Rightarrow> writeElem_fields fl w (VisibleFields T) None 0 (VisibleFields T)
           | _ \<Rightarrow> (Some illTyped, w)))"

definition lineEnd :: "'a config_scheme \<Rightarrow> string" where
  "lineEnd w = (if UseCRLF w then [CHR 0x0D, EOL] else [EOL])"

fun writeElems ::
  "floats \<Rightarrow> writer \<Rightarrow> elemType \<Rightarrow> gval list \<Rightarrow> error option \<times> writer" where
  "writeElems fl w T [] = (None, w)"
| "writeElems fl w T (elem # arr) =
     (case writeElem fl w T elem of
        (Some err, w1) \<Rightarrow> (Some err, w1)
      | (None, w1) \<Rightarrow> writeElems fl (WriteString w1 (lineEnd w)) T arr)"

definition WriteCSV :: "floats \<Rightarrow> writer \<Rightarrow> elemType \<Rightarrow> gval list \<Rightarrow> error option \<times> writer"
  where
  "WriteCSV fl w T arr =
     (case (if WithHeader w then
              (case writeHeader w T arr of
                 (Some err, w1) \<Rightarrow> (Some err, w1)
               | (None, w1) \<Rightarrow> (None, WriteString w1 (lineEnd w)))
            else (None, w)) of
        (Some err, w1) \<Rightarrow> (Some err, w1)
      | (None, w1) \<Rightarrow>
          (case writeElems fl w1 T arr of
             (Some err, w2) \<Rightarrow> (Some err, w2)
           | (None, w2) \<Rightarrow> (None, Flush w2)))"

subsection \<open>The element loop of the older, non-generic writer\<close>

text \<open>
  The repository holds the writer twice: the generic one embedded above (it flushes, and it
  knows \<^verbatim>\<open>ErrEmptySlice\<close>) and an older one in \<^verbatim>\<open>writer.go\<close>. Their \<^verbatim>\<open>getString\<close> is the
  same. The field loop of the older \<^verbatim>\<open>writeElem\<close> skips no field, asks \<^verbatim>\<open>getString\<close> for
  every one (\<^verbatim>\<open>Interface()\<close> panics on a field that is not exported) and writes the
  delimiter after every field but the last.
\<close>

fun writeElem_fields_old ::
  "floats \<Rightarrow> writer \<Rightarrow> StructField list \<Rightarrow> gval list option \<Rightarrow> nat \<Rightarrow> StructField list
     \<Rightarrow> error option \<times> writer" where
  "writeElem_fields_old fl w all elem i [] = (None, w)"
| "writeElem_fields_old fl w all elem i (f # fs) =
     (if ContainsRune (Name f) (Comma w) then (Some ErrNoCommasAllowedInBody, w)
      else (case elem of
              None \<Rightarrow> (Some zeroValue, w)
            | Some vs \<Rightarrow>
                (case FieldByName all vs (Name f) of
                   None \<Rightarrow> (Some zeroValue, w)
                 | Some (t, v) \<Rightarrow>
                     if \<not> IsExported f
                     then (Some (PanicReflect ''reflect.Value.Interface: unexported field''), w)
                     else (case getString fl t v of
                             Inl err \<Rightarrow> (Some err, w)
                           | Inr str \<Rightarrow>
                               (let w1 = WriteString w str;
                                    w2 = (if i < length all - 1 then WriteRune w1 (Comma w)
                                          else w1)
                                in writeElem_fields_old fl w2 all elem (Suc i) fs)))))"

definition writeElem_old ::
  "floats \<Rightarrow> writer \<Rightarrow> elemType \<Rightarrow> gval \<Rightarrow> error option \<times> writer" where
  "writeElem_old fl w T e =
     (case MarshalCSV T of
        Some mar \<Rightarrow> writeNames ErrNoCommasAllowedInBody w 0 (mar e)
      | None \<Rightarrow>
          (case e of
             StructV vs \<Rightarrow>
               writeElem_fields_old fl w (VisibleFields T) (Some vs) 0 (VisibleFields T)
           | PtrV (Some (StructV vs)) \<Rightarrow>
               writeElem_fields_old fl w (VisibleFields T) (Some vs) 0 (VisibleFields T)
           | PtrV None \<Rightarrow>
               writeElem_fields_old fl w (VisibleFields T) None 0 (VisibleFields T)
           | _ \<Rightarrow> (Some illTyped, w)))"

section \<open>The rows of an input\<close>

text \<open>
  The complete lines of an input, each with its end-of-line byte, as successive calls of
  \<^verbatim>\<open>ReadString\<close> return them; and the condition that, in header mode, every data line has
  at least as many cells as the header line.
\<close>

definition rowsOf :: "string \<Rightarrow> string list" where
  "rowsOf buf = map (\<lambda>l. l @ [EOL]) (butlast (Split buf EOL))"

definition rowsWideEnough :: "reader \<Rightarrow> bool" where
  "rowsWideEnough r =
     (if WithHeader r then
        (case rowsOf (unread r) of
           [] \<Rightarrow> True
         | header # rows \<Rightarrow>
             (\<forall>row \<in> set rows. length (splitLine r header) \<le> length (splitLine r row)))
      else True)"

section \<open>Shapes and records that survive the round trip\<close>

text \<open>
  The conditions of the round trip, as executable predicates. A column name is the
  \<^verbatim>\<open>csv\<close> tag of a field when it has one and its declared name otherwise; the text of a
  cell is what \<^verbatim>\<open>getString\<close> renders for a value of a built-in kind.
\<close>

text \<open>\<^verbatim>\<open>strings.Join\<close> for a one-byte separator.\<close>

fun join :: "char \<Rightarrow> string list \<Rightarrow> string" where
  "join sep [] = []"
| "join sep (c # cs) = c @ concat (map ((#) sep) cs)"

definition headerName :: "StructField \<Rightarrow> string" where
  "headerName f = (case Tag f of Some t \<Rightarrow> t | None \<Rightarrow> Name f)"

definition cellText :: "floats \<Rightarrow> gval \<Rightarrow> string" where
  "cellText fl v =
     (case v of
        StringV s \<Rightarrow> s
      | IntV i \<Rightarrow> formatInt i
      | UintV n \<Rightarrow> formatUint n
      | FloatV x \<Rightarrow> FormatFloat fl x
      | BoolV b \<Rightarrow> formatBool b
      | _ \<Rightarrow> [])"

text \<open>A cell holds neither the delimiter nor the end of line. A line of cells is not
  empty, and when it has two cells or more the last is not empty (a trailing delimiter
  would be cut).\<close>

definition cellOK :: "string \<Rightarrow> bool" where
  "cellOK c = (CHR '','' \<notin> set c \<and> EOL \<notin> set c)"

definition lineOK :: "string list \<Rightarrow> bool" where
  "lineOK cells = (cells \<noteq> [] \<and> list_all cellOK cells \<and> (2 \<le> length cells \<longrightarrow> last cells \<noteq> []))"

text \<open>A field that takes part in both directions by the built-in rules alone.\<close>

definition fieldOK :: "StructField \<Rightarrow> bool" where
  "fieldOK f =
     (IsExported f \<and> \<not> Anonymous f \<and> Tag f \<noteq> Some ''-''
      \<and> Stringer (Methods (Type f)) = None \<and> Parser (Methods (Type f)) = None
      \<and> Kind (Type f) \<in> {StringK, BoolK, IntK, Int8K, Int16K, Int32K, Int64K,
                           UintK, Uint8K, Uint16K, Uint32K, Uint64K, Float32K, Float64K}
      \<and> cellOK (Name f))"

text \<open>A struct type without record-level capabilities, whose field names are distinct (as
  Go requires) and whose column names resolve back to their own fields.\<close>

definition shapeOK :: "elemType \<Rightarrow> bool" where
  "shapeOK T =
     (UnmarshalCSVWithHeader T = None \<and> Header T = None \<and> MarshalCSV T = None
      \<and> list_all fieldOK (VisibleFields T)
      \<and> distinct (map Name (VisibleFields T))
      \<and> lineOK (map headerName (VisibleFields T))
      \<and> map (\<lambda>f. getField (VisibleFields T) (headerName f)) (VisibleFields T)
          = map Inr [0..<length (VisibleFields T)])"

text \<open>
  A value of the kind of its field: a string without a double quote at either end, an
  integer in the range of its kind, a boolean, or a floating-point number that the library
  parses back from its own rendering.
\<close>

definition valueOK :: "floats \<Rightarrow> StructField \<Rightarrow> gval \<Rightarrow> bool" where
  "valueOK fl f v =
     (case v of
        StringV s \<Rightarrow>
          Kind (Type f) = StringK \<and> \<not> HasSuffix s [CHR 0x22] \<and> \<not> HasPrefix s [CHR 0x22]
      | IntV i \<Rightarrow>
          Kind (Type f) \<in> {IntK, Int8K, Int16K, Int32K, Int64K}
          \<and> - (2 ^ (bits (Kind (Type f)) - 1)) \<le> i \<and> i < 2 ^ (bits (Kind (Type f)) - 1)
      | UintV n \<Rightarrow>
          Kind (Type f) \<in> {UintK, Uint8K, Uint16K, Uint32K, Uint64K}
          \<and> n < 2 ^ bits (Kind (Type f))
      | BoolV b \<Rightarrow> Kind (Type f) = BoolK
      | FloatV x \<Rightarrow>
          Kind (Type f) \<in> {Float32K, Float64K}
          \<and> ParseFloat fl (TrimSpace (FormatFloat fl x)) = Inr x
          \<and> (Kind (Type f) = Float32K \<longrightarrow> toFloat32 fl x = x)
      | _ \<Rightarrow> False)"

definition recordOK :: "floats \<Rightarrow> elemType \<Rightarrow> gval \<Rightarrow> bool" where
  "recordOK fl T rec =
     (case rec of
        StructV vs \<Rightarrow>
          list_all2 (valueOK fl) (VisibleFields T) vs \<and> lineOK (map (cellText fl) vs)
      | _ \<Rightarrow> False)"

text \<open>The line of a record and the header line, as the writer should produce them.\<close>

definition rowText :: "floats \<Rightarrow> gval \<Rightarrow> string" where
  "rowText fl rec =
     (case rec of StructV vs \<Rightarrow> join (CHR '','') (map (cellText fl) vs) @ [EOL] | _ \<Rightarrow> [])"

definition headerText :: "elemType \<Rightarrow> string" where
  "headerText T = join (CHR '','') (map headerName (VisibleFields T)) @ [EOL]"

section \<open>Example types and inputs\<close>

text \<open>A stand-in for the floating-point library, for examples that have no
  floating-point field.\<close>

definition exampleFloats :: floats where
  "exampleFloats =
     \<lparr>FormatFloat = (\<lambda>x. ''0''), ParseFloat = (\<lambda>s. Inl ErrSyntax),
      ParseComplex = (\<lambda>s. Inl ErrSyntax), toFloat32 = (\<lambda>x. x)\<rparr>"

definition plain :: "kind \<Rightarrow> gtype" where
  "plain k = GType k [] noMethods"

definition pointerTo :: "gtype \<Rightarrow> gtype" where
  "pointerTo t = GType PointerK [t] noMethods"

definition plainField :: "string \<Rightarrow> gtype \<Rightarrow> StructField" where
  "plainField n t = \<lparr>Name = n, Tag = None, Anonymous = False, Type = t\<rparr>"

definition taggedField :: "string \<Rightarrow> string \<Rightarrow> gtype \<Rightarrow> StructField" where
  "taggedField n tag t = \<lparr>Name = n, Tag = Some tag, Anonymous = False, Type = t\<rparr>"

text \<open>A struct type without any record-level capability.\<close>

definition structOf :: "StructField list \<Rightarrow> elemType" where
  "structOf fs =
     \<lparr>VisibleFields = fs, UnmarshalCSV = None, UnmarshalCSVWithHeader = None,
      Header = None, MarshalCSV = None\<rparr>"

text \<open>\<^verbatim>\<open>struct { Name string; Age int }\<close>\<close>

definition person :: elemType where
  "person = structOf [plainField ''Name'' (plain StringK), plainField ''Age'' (plain IntK)]"

text \<open>The same struct with a \<^verbatim>\<open>Header()\<close> method.\<close>

definition personWithHeader :: elemType where
  "personWithHeader = person\<lparr>Header := Some (\<lambda>e. [''name'', ''age''])\<rparr>"

text \<open>\<^verbatim>\<open>struct { P *int }\<close>\<close>

definition withPointer :: elemType where
  "withPointer = structOf [plainField ''P'' (pointerTo (plain IntK))]"

text \<open>\<^verbatim>\<open>struct { C complex128 }\<close>\<close>

definition withComplex :: elemType where
  "withComplex = structOf [plainField ''C'' (plain Complex128K)]"

text \<open>
  \<^verbatim>\<open>type Len int\<close> with a \<^verbatim>\<open>Parse\<close> method that returns the length of the text, and
  \<^verbatim>\<open>struct { L Len }\<close>.
\<close>

definition Len :: gtype where
  "Len = GType IntK []
     \<lparr>Stringer = None, Parser = Some (\<lambda>recv s. Inr (IntV (int (length s))))\<rparr>"

definition withLen :: elemType where
  "withLen = structOf [plainField ''L'' Len]"

text \<open>\<^verbatim>\<open>struct { Name string `csv:"full_name"` }\<close>\<close>

definition renamed :: elemType where
  "renamed = structOf [taggedField ''Name'' ''full_name'' (plain StringK)]"

text \<open>A record whose name is the text \<^verbatim>\<open>Ada\<close> between two double quotes.\<close>

definition quotedAda :: "gval list" where
  "quotedAda = [StructV [StringV (CHR 0x22 # ''Ada'' @ [CHR 0x22]), IntV 36]]"

section \<open>Unfolding sets for evaluation\<close>

lemmas ex_defs = exampleFloats_def plain_def pointerTo_def plainField_def taggedField_def structOf_def
  person_def personWithHeader_def withPointer_def withComplex_def Len_def withLen_def renamed_def noMethods_def
lemmas str_defs = TrimSuffix_def TrimPrefix_def HasSuffix_def HasPrefix_def ContainsRune_def EqualFold_def toLower_def
  TrimSpace_def isSpace_def
lemmas num_defs = formatInt_def formatUint.simps formatBool_def digit_def ParseInt_def ParseUint_def ParseBool_def
  isDigit_def digitVal_def SetInt_def SetUint_def bits_def
lemmas rd_defs = NewReader_def ReadCSV_def ReadString_def readRows.simps readRow_def splitLine_def getField_def
  New_def setField_def setField_parser_def setField_switch_def ElemKind_def IsExported_def Tag_Lookup_def Tag_Get_def Let_def
lemmas wr_defs = NewWriter_def WriteCSV_def writeHeader_def writeElem_def writeElem_old_def getString.simps WriteString_def WriteRune_def
  Flush_def lineEnd_def IsExported_def Tag_Lookup_def Tag_Get_def Let_def zeroValue_def illTyped_def ContainsRune_def

section \<open>The field resolver\<close>

text \<open>What each of the two loops of \<^verbatim>\<open>getField\<close> returns: an index into the field list;
  the tag loop a field whose \<^verbatim>\<open>csv\<close> value is the column, the name loop a field without a
  \<^verbatim>\<open>csv\<close> key.\<close>

lemma getField_tag_Some:
  "getField_tag k fs attr = Some j \<Longrightarrow> k \<le> j \<and> j - k < length fs \<and> Tag_Get (fs ! (j - k)) = attr"
proof (induction fs arbitrary: k)
  case Nil
  then show ?case by simp
next
  case (Cons f fs)
  show ?case
  proof (cases "Tag_Get f = attr")
    case True
    with Cons.prems show ?thesis by simp
  next
    case False
    with Cons.prems have "getField_tag (Suc k) fs attr = Some j" by simp
    from Cons.IH [OF this] have ih: "Suc k \<le> j" "j - Suc k < length fs" "Tag_Get (fs ! (j - Suc k)) = attr"
      by simp_all
    from ih(1) have "j - k = Suc (j - Suc k)" by arith
    with ih show ?thesis by simp
  qed
qed

lemma getField_name_Some:
  "getField_name k fs attr = Some j \<Longrightarrow> k \<le> j \<and> j - k < length fs \<and> Tag (fs ! (j - k)) = None"
proof (induction fs arbitrary: k)
  case Nil
  then show ?case by simp
next
  case (Cons f fs)
  show ?case
  proof (cases "(Name f = attr \<or> EqualFold (Name f) attr) \<and> \<not> snd (Tag_Lookup f)")
    case True
    with Cons.prems show ?thesis by (auto simp: Tag_Lookup_def split: option.splits)
  next
    case False
    with Cons.prems have "getField_name (Suc k) fs attr = Some j" by auto
    from Cons.IH [OF this] have ih: "Suc k \<le> j" "j - Suc k < length fs" "Tag (fs ! (j - Suc k)) = None"
      by simp_all
    from ih(1) have "j - k = Suc (j - Suc k)" by arith
    with ih show ?thesis by simp
  qed
qed

text \<open>
  Claim C8. During read binding a field that declares an override name is never matched by
  its declared name: whatever the record shape and the column name, a field with a \<^verbatim>\<open>csv\<close>
  tag that differs from the column is not the field \<^verbatim>\<open>getField\<close> returns, whatever its
  declared name is (so also when the declared name is the column, or folds to it). The only
  way such a field is bound is by its override name.
\<close>

theorem getField_tagged_only_by_tag:
  assumes "i < length fs" and "Tag (fs ! i) = Some t" and "t \<noteq> attr"
  shows "getField fs attr \<noteq> Inr i"
proof
  assume g: "getField fs attr = Inr i"
  show False
  proof (cases "getField_tag 0 fs attr")
    case (Some j)
    with g have "j = i" by (simp add: getField_def)
    with getField_tag_Some [OF Some] assms show False by (simp add: Tag_Get_def)
  next
    case None
    with g have "getField_name 0 fs attr = Some i"
      by (simp add: getField_def split: option.splits)
    from getField_name_Some [OF this] assms show False by simp
  qed
qed

text \<open>The field \<^verbatim>\<open>Name\<close> tagged \<^verbatim>\<open>full_name\<close> is not bound by the column \<^verbatim>\<open>Name\<close>.\<close>

theorem getField_tagged_only_by_tag_witness:
  "0 < length (VisibleFields renamed) \<and> Tag (VisibleFields renamed ! 0) = Some ''full_name''
   \<and> ''full_name'' \<noteq> ''Name'' \<and> Name (VisibleFields renamed ! 0) = ''Name''
   \<and> getField (VisibleFields renamed) ''Name'' \<noteq> Inr 0"
  using getField_tagged_only_by_tag [of 0 "VisibleFields renamed" "''full_name''" "''Name''"]
  by (simp add: ex_defs)

section \<open>Encoding\<close>

text \<open>
  Claim C6, as amended. The claim says a field of complex kind is rendered like a
  floating-point field. The switch of \<^verbatim>\<open>getString\<close> has no case for the complex kinds:
  for a type of kind \<^verbatim>\<open>Complex64\<close> or \<^verbatim>\<open>Complex128\<close> without a \<^verbatim>\<open>String\<close> method,
  \<^verbatim>\<open>getString\<close> fails with the unsupported-type error, whatever the value.
\<close>

theorem getString_complex_unsupported:
  "Stringer (Methods t) = None \<Longrightarrow> Kind t \<in> {Complex64K, Complex128K}
   \<Longrightarrow> getString fl t v = Inl ErrUnsupportedType"
  by (auto simp: getString.simps)

text \<open>Claim C6 as stated fails: a \<^verbatim>\<open>complex128\<close> field is not rendered, and \<^verbatim>\<open>WriteCSV\<close>
  of a record with such a field returns the unsupported-type error.\<close>

theorem getString_complex_counterexample:
  "getString exampleFloats (plain Complex128K) (ComplexV 0 0) = Inl ErrUnsupportedType
   \<and> fst (WriteCSV exampleFloats NewWriter withComplex [StructV [ComplexV 0 0]])
       = Some ErrUnsupportedType"
  by (simp add: ex_defs wr_defs)

theorem getString_complex_unsupported_witness:
  "Stringer (Methods (plain Complex64K)) = None \<and> Kind (plain Complex64K) \<in> {Complex64K, Complex128K}
   \<and> getString exampleFloats (plain Complex64K) (ComplexV 1 2) = Inl ErrUnsupportedType"
  using getString_complex_unsupported [of "plain Complex64K" exampleFloats "ComplexV 1 2"]
  by (simp add: ex_defs)

section \<open>The writer on an empty collection\<close>

text \<open>
  Claim C3, as amended. With header mode on, \<^verbatim>\<open>WriteCSV\<close> of an empty collection fails
  with the empty-collection error whatever the element type is, with or without a header
  override, and writes nothing: the length test of \<^verbatim>\<open>writeHeader\<close> comes before the
  capability is looked up on the first element.
\<close>

theorem WriteCSV_empty:
  "WithHeader w \<Longrightarrow> WriteCSV fl w T [] = (Some ErrEmptySlice, w)"
  by (simp add: WriteCSV_def writeHeader_def)

theorem WriteCSV_empty_witness:
  "WithHeader NewWriter \<and> Header personWithHeader \<noteq> None
   \<and> WriteCSV exampleFloats NewWriter personWithHeader [] = (Some ErrEmptySlice, NewWriter)"
  using WriteCSV_empty [of NewWriter exampleFloats personWithHeader]
  by (simp add: NewWriter_def ex_defs)

text \<open>Claim C3 as stated fails: the element type has a \<^verbatim>\<open>Header\<close> method, the collection is
  empty, and the call returns the empty-collection error.\<close>

theorem WriteCSV_empty_counterexample:
  "Header personWithHeader \<noteq> None \<and> WithHeader NewWriter
   \<and> fst (WriteCSV exampleFloats NewWriter personWithHeader []) = Some ErrEmptySlice
   \<and> kind_of_error ErrEmptySlice = EmptyCollection"
  by (simp add: ex_defs wr_defs)


section \<open>Reading without a header\<close>

text \<open>
  Claim C4, as amended. With header mode off and an element type without the header-free
  decoder, \<^verbatim>\<open>ReadCSV\<close> first reads a line. When the input holds a complete line (one that
  ends in the end-of-line byte), that line is consumed and the call fails with the
  missing-decoder error, before a cell is decoded and before a record is appended. When
  the input holds no complete line (the empty input, for one), the read meets the end of
  input, the loop ends, and the call succeeds with the empty collection.
\<close>

theorem ReadCSV_without_header_or_decoder:
  assumes "\<not> WithHeader r" and "UnmarshalCSV T = None"
  shows "ReadCSV fl r T =
           (if EOL \<in> set (unread r)
            then (Inl ErrCannotUnmarshalUnknownTypeWithoutHeader,
                  tl (dropWhile (\<lambda>c. c \<noteq> EOL) (unread r)))
            else (Inr [], []))"
  using assms
  by (simp add: ReadCSV_def readRows.simps [of fl r T "[]" "unread r"] ReadString_def
      readRow_def)

text \<open>On the input of one line \<^verbatim>\<open>x\<close> followed by \<^verbatim>\<open>y\<close>, the line is consumed and the
  call fails; \<^verbatim>\<open>y\<close> stays unread.\<close>

theorem ReadCSV_without_header_or_decoder_witness:
  "\<not> WithHeader ((NewReader (''x'' @ [EOL] @ ''y''))\<lparr>WithHeader := False\<rparr>)
   \<and> UnmarshalCSV person = None
   \<and> ReadCSV exampleFloats ((NewReader (''x'' @ [EOL] @ ''y''))\<lparr>WithHeader := False\<rparr>) person
       = (Inl ErrCannotUnmarshalUnknownTypeWithoutHeader, ''y'')"
  using ReadCSV_without_header_or_decoder
    [of "(NewReader (''x'' @ [EOL] @ ''y''))\<lparr>WithHeader := False\<rparr>" person exampleFloats]
  by (simp add: NewReader_def ex_defs)

text \<open>Claim C4 as stated fails: on the empty input the call succeeds, and on a non-empty
  input the failing call has consumed the first line.\<close>

theorem ReadCSV_without_header_or_decoder_counterexample:
  "UnmarshalCSV person = None
   \<and> ReadCSV exampleFloats ((NewReader [])\<lparr>WithHeader := False\<rparr>) person = (Inr [], [])
   \<and> snd (ReadCSV exampleFloats ((NewReader (''x'' @ [EOL] @ ''y''))\<lparr>WithHeader := False\<rparr>) person)
       \<noteq> ''x'' @ [EOL] @ ''y''"
  by (simp add: ex_defs rd_defs)

section \<open>Decoding into pointer fields and through \<^verbatim>\<open>Parse\<close>\<close>

text \<open>
  Claim C5 says that decoding a cell into a pointer field allocates storage and leaves the
  field non-nil with the parsed value. The code does not do so. The record under
  construction is fresh, so the pointer is nil; \<^verbatim>\<open>setField\<close> reads the kind of the
  pointee from the nil pointer, which is \<^verbatim>\<open>Invalid\<close>; no case of the switch applies and
  the field stays nil. For \<^verbatim>\<open>struct { P *int }\<close> and the input of header \<^verbatim>\<open>P\<close> and row
  \<^verbatim>\<open>5\<close>, the call succeeds with the one record whose \<^verbatim>\<open>P\<close> is nil.
\<close>

theorem ReadCSV_pointer_field_stays_nil:
  "ReadCSV exampleFloats (NewReader (''P'' @ [EOL] @ ''5'' @ [EOL])) withPointer
     = (Inr [StructV [PtrV None]], [])"
  by (simp add: ex_defs rd_defs str_defs)

text \<open>
  Claim C7 says that a field with the \<^verbatim>\<open>Parse\<close> capability is decoded by \<^verbatim>\<open>Parse\<close>
  alone. The code stores the result of \<^verbatim>\<open>Parse\<close> and then goes on to the switch over
  the kind: there is no return after the capability. For \<^verbatim>\<open>type Len int\<close>, whose
  \<^verbatim>\<open>Parse\<close> returns the length of the text, the cell \<^verbatim>\<open>10\<close> is first stored as 2 and then
  overwritten by the built-in integer rule with 10, and the cell \<^verbatim>\<open>abc\<close>, which \<^verbatim>\<open>Parse\<close>
  accepts, makes the whole read fail with the syntax error of the built-in rule.
\<close>

theorem setField_parser_then_builtin:
  "setField_parser (VisibleFields withLen) (New withLen) 0 ''10'' = Inr [IntV 2]
   \<and> setField exampleFloats (VisibleFields withLen) (New withLen) 0 ''10'' = Inr [IntV 10]
   \<and> setField exampleFloats (VisibleFields withLen) (New withLen) 0 ''abc''
       = Inl (NumError ErrSyntax)
   \<and> ReadCSV exampleFloats (NewReader (''L'' @ [EOL] @ ''abc'' @ [EOL])) withLen
       = (Inl (NumError ErrSyntax), [])"
  by (simp add: ex_defs rd_defs str_defs num_defs)

section \<open>Writing a value that contains the delimiter\<close>

text \<open>
  Claim C2 says that a field whose rendered value contains the delimiter makes the write
  fail with a formatting error. The field loop of \<^verbatim>\<open>writeElem\<close> tests the name of the
  field for the delimiter, not the rendered value, in both versions of the writer. For
  \<^verbatim>\<open>struct { Name string; Age int }\<close> and the record with name \<^verbatim>\<open>Lovelace, Ada\<close>, the
  call succeeds and the line written has three cells.
\<close>

theorem writeElem_value_with_comma:
  "WriteCSV exampleFloats NewWriter person [StructV [StringV ''Lovelace, Ada'', IntV 36]]
     = (None, NewWriter\<lparr>written := ''Name,Age'' @ [EOL] @ ''Lovelace, Ada,36'' @ [EOL]\<rparr>)
   \<and> writeElem exampleFloats NewWriter person (StructV [StringV ''Lovelace, Ada'', IntV 36])
     = (None, NewWriter\<lparr>buffered := ''Lovelace, Ada,36''\<rparr>)
   \<and> writeElem_old exampleFloats NewWriter person (StructV [StringV ''Lovelace, Ada'', IntV 36])
     = (None, NewWriter\<lparr>buffered := ''Lovelace, Ada,36''\<rparr>)"
  by (simp add: ex_defs wr_defs str_defs num_defs)


section \<open>The row loop\<close>

text \<open>How \<^verbatim>\<open>Split\<close> and \<^verbatim>\<open>ReadString\<close> see the first line of an input.\<close>

lemma Split_not_Nil: "Split s sep \<noteq> []"
  by (induction s) (auto split: list.splits)

lemma Split_line:
  "sep \<in> set s \<Longrightarrow>
     Split s sep = takeWhile (\<lambda>c. c \<noteq> sep) s # Split (tl (dropWhile (\<lambda>c. c \<noteq> sep) s)) sep"
proof (induction s)
  case Nil
  then show ?case by simp
next
  case (Cons c cs)
  show ?case
  proof (cases "c = sep")
    case True
    then show ?thesis by simp
  next
    case False
    with Cons.prems have "sep \<in> set cs" by simp
    from Cons.IH [OF this] False show ?thesis by simp
  qed
qed

lemma ReadString_line:
  "delim \<in> set buf \<Longrightarrow>
     ReadString buf delim =
       (takeWhile (\<lambda>c. c \<noteq> delim) buf @ [delim], None, tl (dropWhile (\<lambda>c. c \<noteq> delim) buf))"
  by (simp add: ReadString_def)

lemma ReadString_EOF: "delim \<notin> set buf \<Longrightarrow> ReadString buf delim = (buf, Some EOF, [])"
  by (simp add: ReadString_def)

lemma ReadString_append:
  assumes "delim \<in> set buf"
  shows "ReadString (buf @ p) delim =
           (takeWhile (\<lambda>c. c \<noteq> delim) buf @ [delim], None,
            tl (dropWhile (\<lambda>c. c \<noteq> delim) buf) @ p)"
proof -
  from assms have ne: "dropWhile (\<lambda>c. c \<noteq> delim) buf \<noteq> []" by simp
  from assms have "takeWhile (\<lambda>c. c \<noteq> delim) (buf @ p) = takeWhile (\<lambda>c. c \<noteq> delim) buf"
    by (intro takeWhile_append1 [of delim]) auto
  moreover from assms
  have "dropWhile (\<lambda>c. c \<noteq> delim) (buf @ p) = dropWhile (\<lambda>c. c \<noteq> delim) buf @ p"
    by (intro dropWhile_append1 [of delim]) auto
  ultimately show ?thesis using assms ne by (simp add: ReadString_def)
qed

text \<open>One step of the row loop: at the end of input, and at a complete line.\<close>

lemma readRows_EOF:
  "EOL \<notin> set buf \<Longrightarrow> readRows fl r T attrs buf result = (Inr result, [])"
  by (simp add: readRows.simps [of fl r T attrs buf] ReadString_EOF)

lemma readRows_line:
  "EOL \<in> set buf \<Longrightarrow>
     readRows fl r T attrs buf result =
       (case readRow fl r T attrs (splitLine r (takeWhile (\<lambda>c. c \<noteq> EOL) buf @ [EOL])) of
          Inl err \<Rightarrow> (Inl err, tl (dropWhile (\<lambda>c. c \<noteq> EOL) buf))
        | Inr item \<Rightarrow>
            readRows fl r T attrs (tl (dropWhile (\<lambda>c. c \<noteq> EOL) buf)) (result @ [StructV item]))"
  by (simp add: readRows.simps [of fl r T attrs buf] ReadString_line)

text \<open>The loop depends on the configuration only, not on what the reader record holds as
  unread input.\<close>

lemma readRows_config:
  assumes "WithHeader r = WithHeader r'" and "Comma r = Comma r'" and "UseCRLF r = UseCRLF r'"
  shows "readRows fl r T attrs buf result = readRows fl r' T attrs buf result"
proof (induction buf arbitrary: result rule: length_induct)
  case (1 buf)
  show ?case
  proof (cases "EOL \<in> set buf")
    case False
    then show ?thesis by (simp add: readRows_EOF)
  next
    case True
    let ?rest = "tl (dropWhile (\<lambda>c. c \<noteq> EOL) buf)"
    from True have "dropWhile (\<lambda>c. c \<noteq> EOL) buf \<noteq> []" by simp
    then have "length ?rest < length buf"
      using length_dropWhile_le [of "\<lambda>c. c \<noteq> EOL" buf]
      by (cases "dropWhile (\<lambda>c. c \<noteq> EOL) buf") auto
    with "1.IH" have ih: "\<And>res. readRows fl r T attrs ?rest res = readRows fl r' T attrs ?rest res"
      by blast
    have "readRow fl r T attrs vs = readRow fl r' T attrs vs" for vs
      using assms by (simp add: readRow_def)
    moreover have "splitLine r l = splitLine r' l" for l
      using assms by (simp add: splitLine_def)
    ultimately show ?thesis
      by (simp add: readRows_line [OF True] ih split: sum.splits)
  qed
qed

text \<open>Bytes without an end of line, appended to the input, do not change the result.\<close>

lemma readRows_append:
  assumes "EOL \<notin> set p"
  shows "fst (readRows fl r T attrs (buf @ p) result) = fst (readRows fl r T attrs buf result)"
proof (induction buf arbitrary: result rule: length_induct)
  case (1 buf)
  show ?case
  proof (cases "EOL \<in> set buf")
    case False
    with assms show ?thesis by (simp add: readRows_EOF)
  next
    case True
    let ?rest = "tl (dropWhile (\<lambda>c. c \<noteq> EOL) buf)"
    from True have "dropWhile (\<lambda>c. c \<noteq> EOL) buf \<noteq> []" by simp
    then have "length ?rest < length buf"
      using length_dropWhile_le [of "\<lambda>c. c \<noteq> EOL" buf]
      by (cases "dropWhile (\<lambda>c. c \<noteq> EOL) buf") auto
    with "1.IH" have ih: "\<And>res. fst (readRows fl r T attrs (?rest @ p) res)
                              = fst (readRows fl r T attrs ?rest res)"
      by blast
    have "readRows fl r T attrs (buf @ p) result =
       (case readRow fl r T attrs (splitLine r (takeWhile (\<lambda>c. c \<noteq> EOL) buf @ [EOL])) of
          Inl err \<Rightarrow> (Inl err, ?rest @ p)
        | Inr item \<Rightarrow> readRows fl r T attrs (?rest @ p) (result @ [StructV item]))"
      by (simp add: readRows.simps [of fl r T attrs "buf @ p"] ReadString_append [OF True])
    then show ?thesis
      by (simp add: readRows_line [OF True] ih split: sum.splits)
  qed
qed

text \<open>
  Claim C10. When the input ends in a line without the end-of-line byte, \<^verbatim>\<open>ReadCSV\<close>
  treats the end of input met while reading that line as normal termination, before the
  line is processed. The row loop, started on such a partial line, returns the records
  collected so far as a success and leaves nothing unread; and the result of \<^verbatim>\<open>ReadCSV\<close>
  on an input followed by a partial line is the result on the input alone, so the partial
  line is discarded silently and its record is not in the collection.
\<close>

theorem ReadCSV_unterminated_last_line:
  assumes "EOL \<notin> set partial"
  shows "fst (ReadCSV fl (r\<lparr>unread := input @ partial\<rparr>) T) = fst (ReadCSV fl (r\<lparr>unread := input\<rparr>) T)
         \<and> readRows fl r T attrs partial result = (Inr result, [])"
proof
  show "readRows fl r T attrs partial result = (Inr result, [])"
    using assms by (rule readRows_EOF)
  show "fst (ReadCSV fl (r\<lparr>unread := input @ partial\<rparr>) T) = fst (ReadCSV fl (r\<lparr>unread := input\<rparr>) T)"
  proof (cases "WithHeader r")
    case False
    then show ?thesis
      by (simp add: ReadCSV_def readRows_append [OF assms]
          readRows_config [of "r\<lparr>unread := input @ partial\<rparr>" "r\<lparr>unread := input\<rparr>"])
  next
    case True
    show ?thesis
    proof (cases "EOL \<in> set input")
      case False
      with assms True show ?thesis by (simp add: ReadCSV_def ReadString_EOF)
    next
      case mem: True
      with True show ?thesis
        by (simp add: ReadCSV_def ReadString_append ReadString_line readRows_append [OF assms]
            splitLine_def
            readRows_config [of "r\<lparr>unread := input @ partial\<rparr>" "r\<lparr>unread := input\<rparr>"])
    qed
  qed
qed

text \<open>The input of header, one complete row and the partial row \<^verbatim>\<open>Bob,7\<close> gives the one
  record of the complete row.\<close>

theorem ReadCSV_unterminated_last_line_witness:
  "EOL \<notin> set ''Bob,7''
   \<and> fst (ReadCSV exampleFloats (NewReader (''Name,Age'' @ [EOL] @ ''Ada,36'' @ [EOL] @ ''Bob,7'')) person)
      = Inr [StructV [StringV ''Ada'', IntV 36]]
   \<and> fst (ReadCSV exampleFloats (NewReader (''Name,Age'' @ [EOL] @ ''Ada,36'' @ [EOL])) person)
      = Inr [StructV [StringV ''Ada'', IntV 36]]"
  using ReadCSV_unterminated_last_line [where partial = "''Bob,7''" and fl = exampleFloats
      and r = "NewReader []" and input = "''Name,Age'' @ [EOL] @ ''Ada,36'' @ [EOL]"
      and T = person and attrs = "[]" and result = "[]"]
  by (simp add: ex_defs rd_defs str_defs num_defs)


section \<open>The cell lookup\<close>

lemma Split_no_sep: "sep \<notin> set s \<Longrightarrow> Split s sep = [s]"
  by (induction s) auto

lemma rowsOf_EOF: "EOL \<notin> set buf \<Longrightarrow> rowsOf buf = []"
  by (simp add: rowsOf_def Split_no_sep)

lemma rowsOf_line:
  "EOL \<in> set buf \<Longrightarrow>
     rowsOf buf = (takeWhile (\<lambda>c. c \<noteq> EOL) buf @ [EOL])
                    # rowsOf (tl (dropWhile (\<lambda>c. c \<noteq> EOL) buf))"
  by (simp add: rowsOf_def Split_line Split_not_Nil)

lemma getField_error: "getField fs attr = Inl err \<Longrightarrow> err = errFieldNotFound"
  by (auto simp: getField_def split: option.splits)

lemma setField_parser_no_index_panic:
  "setField_parser fs item field value \<noteq> Inl (PanicIndexOutOfRange i n)"
  by (auto simp: setField_parser_def split: option.splits sum.splits gval.splits)

lemma setField_switch_no_index_panic:
  "setField_switch fl fs item field value \<noteq> Inl (PanicIndexOutOfRange i n)"
  by (auto simp: setField_switch_def notAssignable_def Let_def split: sum.splits)

lemma setField_no_index_panic:
  "setField fl fs item field value \<noteq> Inl (PanicIndexOutOfRange i n)"
  using setField_parser_no_index_panic [of fs item field "value" i n]
    setField_switch_no_index_panic [of fl fs _ field "value" i n]
  by (auto simp: setField_def split: sum.splits)

lemma bindFields_in_bounds:
  "k + length attrs \<le> length values \<Longrightarrow>
     bindFields fl fs k attrs values item \<noteq> Inl (PanicIndexOutOfRange i n)"
proof (induction attrs arbitrary: k item)
  case Nil
  then show ?case by simp
next
  case (Cons attr attrs)
  from Cons.prems have k: "k < length values" and rest: "Suc k + length attrs \<le> length values"
    by simp_all
  show ?case
  proof (cases "getField fs attr")
    case (Inl err)
    with getField_error [OF Inl] Cons.IH [OF rest] show ?thesis by simp
  next
    case (Inr field)
    show ?thesis
    proof (cases "setField fl fs item field (values ! k)")
      case (Inl err)
      with setField_no_index_panic [of fl fs item field "values ! k" i n] Inr k
      show ?thesis by auto
    next
      case item1: (Inr item1)
      with Inr k Cons.IH [OF rest] show ?thesis by simp
    qed
  qed
qed

lemma readRow_in_bounds:
  "length attrs \<le> length values \<Longrightarrow>
     readRow fl r T attrs values \<noteq> Inl (PanicIndexOutOfRange i n)"
  using bindFields_in_bounds [of 0 attrs "values" fl "VisibleFields T" _ i n]
  by (auto simp: readRow_def Let_def split: option.splits sum.splits if_splits)

lemma readRows_in_bounds:
  "\<forall>row \<in> set (rowsOf buf). length attrs \<le> length (splitLine r row) \<Longrightarrow>
     fst (readRows fl r T attrs buf result) \<noteq> Inl (PanicIndexOutOfRange i n)"
proof (induction buf arbitrary: result rule: length_induct)
  case (1 buf)
  show ?case
  proof (cases "EOL \<in> set buf")
    case False
    then show ?thesis by (simp add: readRows_EOF)
  next
    case True
    let ?line = "takeWhile (\<lambda>c. c \<noteq> EOL) buf @ [EOL]"
    let ?rest = "tl (dropWhile (\<lambda>c. c \<noteq> EOL) buf)"
    from True have "dropWhile (\<lambda>c. c \<noteq> EOL) buf \<noteq> []" by simp
    then have shorter: "length ?rest < length buf"
      using length_dropWhile_le [of "\<lambda>c. c \<noteq> EOL" buf]
      by (cases "dropWhile (\<lambda>c. c \<noteq> EOL) buf") auto
    from "1.prems" rowsOf_line [OF True]
    have here: "length attrs \<le> length (splitLine r ?line)"
      and later: "\<forall>row \<in> set (rowsOf ?rest). length attrs \<le> length (splitLine r row)"
      by simp_all
    from "1.IH" shorter later
    have ih: "\<And>res. fst (readRows fl r T attrs ?rest res) \<noteq> Inl (PanicIndexOutOfRange i n)"
      by blast
    from readRow_in_bounds [OF here, of fl r T i n] ih show ?thesis
      by (auto simp: readRows_line [OF True] split: sum.splits)
  qed
qed

text \<open>
  Claim C9. The field-by-field binding reads the cell \<^verbatim>\<open>values[i]\<close> at the header position
  of a matched column without a bounds check. For the header \<^verbatim>\<open>Name,Age\<close> and the row
  \<^verbatim>\<open>Ada\<close>, the column \<^verbatim>\<open>Age\<close> matches a field and the row has one cell only: \<^verbatim>\<open>ReadCSV\<close>
  panics with an index out of range instead of returning an error. When every data row
  has at least as many cells as the header, no call of \<^verbatim>\<open>ReadCSV\<close> ends in that panic.
\<close>

theorem ReadCSV_index_in_bounds:
  "ReadCSV exampleFloats (NewReader (''Name,Age'' @ [EOL] @ ''Ada'' @ [EOL])) person
     = (Inl (PanicIndexOutOfRange 1 1), [])
   \<and> (rowsWideEnough r \<longrightarrow> fst (ReadCSV fl r T) \<noteq> Inl (PanicIndexOutOfRange i n))"
proof (intro conjI impI)
  show "ReadCSV exampleFloats (NewReader (''Name,Age'' @ [EOL] @ ''Ada'' @ [EOL])) person
          = (Inl (PanicIndexOutOfRange 1 1), [])"
    by (simp add: ex_defs rd_defs str_defs num_defs)
next
  assume wide: "rowsWideEnough r"
  show "fst (ReadCSV fl r T) \<noteq> Inl (PanicIndexOutOfRange i n)"
  proof (cases "WithHeader r")
    case False
    then show ?thesis
      using readRows_in_bounds [of "unread r" "[]" r fl T "[]" i n]
      by (simp add: ReadCSV_def)
  next
    case True
    show ?thesis
    proof (cases "EOL \<in> set (unread r)")
      case False
      with True show ?thesis by (simp add: ReadCSV_def ReadString_EOF)
    next
      case mem: True
      let ?header = "takeWhile (\<lambda>c. c \<noteq> EOL) (unread r) @ [EOL]"
      let ?rest = "tl (dropWhile (\<lambda>c. c \<noteq> EOL) (unread r))"
      from wide True rowsOf_line [OF mem]
      have "\<forall>row \<in> set (rowsOf ?rest). length (splitLine r ?header) \<le> length (splitLine r row)"
        by (simp add: rowsWideEnough_def)
      from readRows_in_bounds [OF this, of fl T "[]" i n] True mem show ?thesis
        by (simp add: ReadCSV_def ReadString_line)
    qed
  qed
qed

text \<open>A row with more cells than the header is wide enough; the row \<^verbatim>\<open>Ada\<close> above is
  not.\<close>

theorem ReadCSV_index_in_bounds_witness:
  "rowsWideEnough (NewReader (''Name,Age'' @ [EOL] @ ''Ada,36,London'' @ [EOL]))
   \<and> fst (ReadCSV exampleFloats (NewReader (''Name,Age'' @ [EOL] @ ''Ada,36,London'' @ [EOL])) person)
       \<noteq> Inl (PanicIndexOutOfRange 1 1)
   \<and> \<not> rowsWideEnough (NewReader (''Name,Age'' @ [EOL] @ ''Ada'' @ [EOL]))"
  using ReadCSV_index_in_bounds [where r = "NewReader (''Name,Age'' @ [EOL] @ ''Ada,36,London'' @ [EOL])"
      and fl = exampleFloats and T = person and i = 1 and n = 1]
  by (simp add: rowsWideEnough_def rowsOf_def NewReader_def splitLine_def str_defs)


section \<open>Numbers as text, and back\<close>

lemma digit_cases:
  assumes "d < 10"
  shows "d = 0 \<or> d = 1 \<or> d = 2 \<or> d = 3 \<or> d = 4 \<or> d = 5 \<or> d = 6 \<or> d = 7 \<or> d = 8 \<or> d = (9::nat)"
  using assms by arith

lemma digit_isDigit: "d < 10 \<Longrightarrow> isDigit (digit d)"
  using digit_cases [of d] by (auto simp: digit_def isDigit_def)

lemma digitVal_digit: "d < 10 \<Longrightarrow> digitVal (digit d) = d"
  using digit_cases [of d] by (auto simp: digit_def digitVal_def)

lemma isDigit_plain:
  "isDigit c \<Longrightarrow> \<not> isSpace c \<and> c \<noteq> CHR '','' \<and> c \<noteq> EOL \<and> c \<noteq> CHR ''-'' \<and> c \<noteq> CHR ''+''"
  by (auto simp: isDigit_def isSpace_def Let_def)

lemma formatUint_digits: "c \<in> set (formatUint n) \<Longrightarrow> isDigit c"
proof (induction n rule: formatUint.induct)
  case (1 n)
  then show ?case
    by (cases "n < 10") (auto simp: formatUint.simps [of n] digit_isDigit)
qed

lemma formatUint_not_Nil: "formatUint n \<noteq> []"
  by (simp add: formatUint.simps [of n])

lemma parseUintLoop_append:
  "parseUintLoop a (xs @ ys) =
     (case parseUintLoop a xs of Inl e \<Rightarrow> Inl e | Inr m \<Rightarrow> parseUintLoop m ys)"
  by (induction xs arbitrary: a) (auto simp: Let_def)

lemma parseUintLoop_digit:
  assumes "d < 10" and "m * 10 + d < 2 ^ 64"
  shows "parseUintLoop m [digit d] = Inr (m * 10 + d)"
proof -
  from assms have "m < (2 ^ 64 - 1) div 10 + 1" by simp
  with assms show ?thesis
    by (simp add: digit_isDigit digitVal_digit Let_def)
qed

lemma parseUintLoop_formatUint: "n < 2 ^ 64 \<Longrightarrow> parseUintLoop 0 (formatUint n) = Inr n"
proof (induction n rule: formatUint.induct)
  case (1 n)
  show ?case
  proof (cases "n < 10")
    case True
    with "1.prems" parseUintLoop_digit [of n 0] show ?thesis
      by (simp add: formatUint.simps [of n])
  next
    case False
    from "1.prems" have "n div 10 < 2 ^ 64" by simp
    with "1.IH" False have ih: "parseUintLoop 0 (formatUint (n div 10)) = Inr (n div 10)"
      by simp
    from "1.prems" have "n div 10 * 10 + n mod 10 < 2 ^ 64" by simp
    with parseUintLoop_digit [of "n mod 10" "n div 10"]
    have "parseUintLoop (n div 10) [digit (n mod 10)] = Inr n" by simp
    with False ih show ?thesis
      by (simp add: formatUint.simps [of n] parseUintLoop_append)
  qed
qed

lemma ParseUint_formatUint: "n < 2 ^ 64 \<Longrightarrow> ParseUint (formatUint n) = Inr n"
  by (simp add: ParseUint_def formatUint_not_Nil parseUintLoop_formatUint)

lemma hd_formatUint: "isDigit (hd (formatUint n))"
  using formatUint_digits [of "hd (formatUint n)" n] formatUint_not_Nil [of n] by simp

lemma ParseInt_formatInt:
  assumes "- (2 ^ 63) \<le> i" and "i < 2 ^ 63"
  shows "ParseInt (formatInt i) = Inr i"
proof (cases "i < 0")
  case True
  with assms have "nat (- i) \<le> 2 ^ 63" by simp
  then have "nat (- i) < 2 ^ 64" and "\<not> nat (- i) > 2 ^ 63" by simp_all
  with True show ?thesis
    by (simp add: ParseInt_def formatInt_def ParseUint_formatUint)
next
  case False
  with assms have small: "nat i < 2 ^ 63" by simp
  then have "nat i < 2 ^ 64" by simp
  moreover from isDigit_plain [OF hd_formatUint [of "nat i"]]
  have "hd (formatUint (nat i)) \<noteq> CHR ''-''" "hd (formatUint (nat i)) \<noteq> CHR ''+''"
    by simp_all
  ultimately show ?thesis using False small
    by (simp add: ParseInt_def formatInt_def ParseUint_formatUint formatUint_not_Nil)
qed

lemma TrimSpace_plain:
  assumes "\<forall>c \<in> set s. \<not> isSpace c"
  shows "TrimSpace s = s"
proof -
  from assms have "dropWhile isSpace s = s"
    by (cases s) auto
  moreover from assms have "\<forall>c \<in> set (rev s). \<not> isSpace c"
    by simp
  then have "dropWhile isSpace (rev s) = rev s"
    by (cases "rev s") auto
  ultimately show ?thesis by (simp add: TrimSpace_def)
qed

lemma TrimSpace_formatUint: "TrimSpace (formatUint n) = formatUint n"
  using formatUint_digits isDigit_plain by (intro TrimSpace_plain) blast

lemma TrimSpace_formatInt: "TrimSpace (formatInt i) = formatInt i"
proof (rule TrimSpace_plain, rule ballI)
  fix c assume "c \<in> set (formatInt i)"
  then have "c = CHR ''-'' \<or> isDigit c"
    by (auto simp: formatInt_def dest: formatUint_digits split: if_splits)
  then show "\<not> isSpace c"
    using isDigit_plain [of c] by (auto simp: isSpace_def)
qed

lemma cellOK_formatUint: "cellOK (formatUint n)"
  using formatUint_digits isDigit_plain by (auto simp: cellOK_def)

lemma cellOK_formatInt: "cellOK (formatInt i)"
  using cellOK_formatUint by (simp add: formatInt_def cellOK_def)

lemma cellOK_formatBool: "cellOK (formatBool b)"
  by (simp add: formatBool_def cellOK_def)

lemma ParseBool_formatBool: "ParseBool (TrimSpace (formatBool b)) = Inr b"
  by (simp add: formatBool_def ParseBool_def TrimSpace_def isSpace_def)

section \<open>Lines and cells\<close>

lemma Split_cell: "sep \<notin> set c \<Longrightarrow> Split (c @ sep # rest) sep = c # Split rest sep"
  by (induction c) auto

lemma join_Cons2: "join sep (c # d # ds) = c @ sep # join sep (d # ds)"
  by simp

lemma Split_join:
  "cells \<noteq> [] \<Longrightarrow> \<forall>c \<in> set cells. sep \<notin> set c \<Longrightarrow> Split (join sep cells) sep = cells"
proof (induction cells rule: induct_list012)
  case 1
  then show ?case by simp
next
  case (2 c)
  then show ?case by (simp add: Split_no_sep)
next
  case (3 c d ds)
  then show ?case by (simp only: join_Cons2) (simp add: Split_cell)
qed

lemma set_join: "set (join sep cells) \<subseteq> insert sep (\<Union>c \<in> set cells. set c)"
  by (cases cells) auto

lemma join_last:
  "cells \<noteq> [] \<Longrightarrow> last cells \<noteq> [] \<Longrightarrow>
     join sep cells \<noteq> [] \<and> last (join sep cells) = last (last cells)"
proof (induction cells rule: induct_list012)
  case 1
  then show ?case by simp
next
  case (2 c)
  then show ?case by simp
next
  case (3 c d ds)
  from "3.prems" have "last (d # ds) \<noteq> []" by simp
  with "3.IH"(2) have "join sep (d # ds) \<noteq> []"
    and "last (join sep (d # ds)) = last (last (d # ds))"
    by simp_all
  then show ?case
    unfolding join_Cons2 by (simp del: join.simps)
qed

lemma HasSuffix_single: "HasSuffix s [c] \<longleftrightarrow> s \<noteq> [] \<and> last s = c"
proof (cases s rule: rev_cases)
  case Nil
  then show ?thesis by (simp add: HasSuffix_def)
next
  case (snoc xs x)
  then show ?thesis by (auto simp: HasSuffix_def)
qed

lemma HasPrefix_single: "HasPrefix s [c] \<longleftrightarrow> s \<noteq> [] \<and> hd s = c"
  by (cases s) (auto simp: HasPrefix_def)

lemma TrimSuffix_snoc: "TrimSuffix (s @ [c]) [c] = s"
  by (simp add: TrimSuffix_def HasSuffix_def)

lemma join_no_trailing_sep:
  assumes "lineOK cells"
  shows "\<not> HasSuffix (join (CHR '','') cells) [CHR '','']"
proof (cases "last cells = []")
  case True
  with assms obtain c where "cells = [c]"
    by (cases cells rule: rev_cases) (auto simp: lineOK_def Suc_le_eq)
  with True show ?thesis by (simp add: HasSuffix_def)
next
  case False
  from assms have ne: "cells \<noteq> []" and ok: "cellOK (last cells)"
    by (auto simp: lineOK_def list_all_iff)
  from join_last [OF ne False, of "CHR '',''"] False ok show ?thesis
    by (auto simp: HasSuffix_single cellOK_def dest: last_in_set)
qed

lemma join_no_EOL: "list_all cellOK cells \<Longrightarrow> EOL \<notin> set (join (CHR '','') cells)"
  using set_join [of "CHR '',''" cells] by (auto simp: list_all_iff cellOK_def)

lemma splitLine_join:
  assumes "lineOK cells" and "Comma r = CHR '',''" and "\<not> UseCRLF r"
  shows "splitLine r (join (CHR '','') cells @ [EOL]) = cells"
proof -
  from assms(1) have "cells \<noteq> []" and "\<forall>c \<in> set cells. CHR '','' \<notin> set c"
    by (auto simp: lineOK_def list_all_iff cellOK_def)
  then have "Split (join (CHR '','') cells) (CHR '','') = cells"
    by (rule Split_join)
  with join_no_trailing_sep [OF assms(1)] assms(2,3) show ?thesis
    by (simp add: splitLine_def TrimSuffix_snoc) (simp add: TrimSuffix_def)
qed

lemma ReadString_first_line:
  "delim \<notin> set line \<Longrightarrow> ReadString (line @ delim # rest) delim = (line @ [delim], None, rest)"
proof -
  assume a: "delim \<notin> set line"
  then have "takeWhile (\<lambda>c. c \<noteq> delim) (line @ delim # rest) = line"
    by (simp add: takeWhile_tail) (metis takeWhile_eq_all_conv)
  moreover from a have "dropWhile (\<lambda>c. c \<noteq> delim) (line @ delim # rest) = delim # rest"
    by (simp add: dropWhile_append3) (metis dropWhile_eq_Nil_conv)
  ultimately show ?thesis by (simp add: ReadString_def)
qed

section \<open>What the writer writes\<close>

lemma WriteString_Nil: "WriteString w [] = w"
  by (simp add: WriteString_def)

lemma WriteString_twice: "WriteString (WriteString w a) b = WriteString w (a @ b)"
  by (simp add: WriteString_def)

lemma WriteString_config:
  "Comma (WriteString w a) = Comma w" "UseCRLF (WriteString w a) = UseCRLF w"
  "WithHeader (WriteString w a) = WithHeader w"
  by (simp_all add: WriteString_def)

lemma writeHeader_fields_names:
  assumes "Comma w = CHR '',''" and "list_all fieldOK fs"
    and "list_all cellOK (map headerName fs)"
  shows "writeHeader_fields w i fs =
           (None, WriteString w (if i > 0 then concat (map ((#) (CHR '','')) (map headerName fs))
                                 else join (CHR '','') (map headerName fs)))"
  using assms
proof (induction fs arbitrary: w i)
  case Nil
  then show ?case by (simp add: WriteString_Nil)
next
  case (Cons f fs)
  from Cons.prems have f: "fieldOK f" "cellOK (headerName f)"
    and fs: "list_all fieldOK fs" "list_all cellOK (map headerName fs)"
    by simp_all
  let ?w1 = "if i > 0 then WriteRune w (Comma w) else w"
  have "Comma (WriteString ?w1 (headerName f)) = CHR '',''"
    using Cons.prems(1) by (simp add: WriteString_config WriteRune_def)
  from Cons.IH [OF this fs, of "Suc i"]
  have ih: "writeHeader_fields (WriteString ?w1 (headerName f)) (Suc i) fs =
          (None, WriteString (WriteString ?w1 (headerName f))
                   (concat (map ((#) (CHR '','')) (map headerName fs))))"
    by simp
  from f have skip: "\<not> (Anonymous f \<or> \<not> IsExported f)" and dash: "Tag f \<noteq> Some ''-''"
    by (simp_all add: fieldOK_def)
  show ?case
  proof (cases "Tag f")
    case None
    with skip ih Cons.prems(1) show ?thesis
      by (simp add: Tag_Lookup_def headerName_def WriteRune_def WriteString_twice)
  next
    case (Some t)
    with f(2) have "\<not> ContainsRune t (CHR '','')"
      by (simp add: headerName_def cellOK_def ContainsRune_def)
    with Some dash skip ih Cons.prems(1) show ?thesis
      by (simp add: Tag_Lookup_def headerName_def WriteRune_def WriteString_twice)
  qed
qed

lemma FieldByName_nth:
  "distinct (map Name fs) \<Longrightarrow> length vs = length fs \<Longrightarrow> j < length fs \<Longrightarrow>
     FieldByName fs vs (Name (fs ! j)) = Some (Type (fs ! j), vs ! j)"
proof (induction fs arbitrary: vs j)
  case Nil
  then show ?case by simp
next
  case (Cons f fs)
  from Cons.prems(2) obtain v vs' where vs: "vs = v # vs'"
    by (cases vs) auto
  show ?case
  proof (cases j)
    case 0
    with vs show ?thesis by simp
  next
    case (Suc j')
    with Cons.prems have j': "j' < length fs" and "Name f \<notin> Name ` set fs"
      by simp_all
    then have "Name (fs ! j') \<noteq> Name f"
      by (metis imageI nth_mem)
    moreover from Cons.prems vs j'
    have "FieldByName fs vs' (Name (fs ! j')) = Some (Type (fs ! j'), vs' ! j')"
      by (intro Cons.IH) simp_all
    ultimately show ?thesis using Suc vs by simp
  qed
qed

lemma getString_cell:
  "fieldOK f \<Longrightarrow> valueOK fl f v \<Longrightarrow> getString fl (Type f) v = Inr (cellText fl v)"
  by (cases v) (auto simp: fieldOK_def valueOK_def getString.simps cellText_def)

lemma writeElem_fields_cells:
  assumes "Comma w = CHR '',''" and "list_all fieldOK all" and "distinct (map Name all)"
    and "list_all2 (valueOK fl) all vs" and "all = pre @ fs"
  shows "writeElem_fields fl w all (Some vs) i fs =
           (None, WriteString w
              (if i > 0
               then concat (map ((#) (CHR '','')) (map (cellText fl) (drop (length pre) vs)))
               else join (CHR '','') (map (cellText fl) (drop (length pre) vs))))"
  using assms(1,5)
proof (induction fs arbitrary: w i pre)
  case Nil
  with assms(4) have "length vs = length pre"
    by (simp add: list_all2_lengthD [symmetric])
  then show ?case by (simp add: WriteString_Nil)
next
  case (Cons f fs)
  let ?k = "length pre"
  from assms(4) have len: "length vs = length all" by (simp add: list_all2_lengthD)
  from Cons.prems(2) have k: "?k < length all" and f: "all ! ?k = f" by simp_all
  from assms(2) k f have ok: "fieldOK f" by (auto simp: list_all_length)
  from assms(4) k f have val: "valueOK fl f (vs ! ?k)" by (auto simp: list_all2_conv_all_nth)
  from FieldByName_nth [OF assms(3) len k] f
  have look: "FieldByName all vs (Name f) = Some (Type f, vs ! ?k)" by simp
  from k len have dr: "drop ?k vs = vs ! ?k # drop (Suc ?k) vs"
    by (simp add: Cons_nth_drop_Suc)
  let ?w1 = "if i > 0 then WriteRune w (Comma w) else w"
  have c: "Comma (WriteString ?w1 (cellText fl (vs ! ?k))) = CHR '',''"
    using Cons.prems(1) by (simp add: WriteString_config WriteRune_def)
  from Cons.prems(2) have "all = (pre @ [f]) @ fs" by simp
  from Cons.IH [OF c this, of "Suc i"]
  have ih: "writeElem_fields fl (WriteString ?w1 (cellText fl (vs ! ?k))) all (Some vs) (Suc i) fs =
      (None, WriteString (WriteString ?w1 (cellText fl (vs ! ?k)))
         (concat (map ((#) (CHR '','')) (map (cellText fl) (drop (Suc ?k) vs)))))"
    by simp
  from ok have "\<not> ContainsRune (Name f) (Comma w)" and "IsExported f" and "Tag_Get f \<noteq> ''-''"
    using Cons.prems(1)
    by (auto simp: fieldOK_def cellOK_def ContainsRune_def Tag_Get_def split: option.splits)
  with look getString_cell [OF ok val] ih Cons.prems(1) show ?case
    by (simp add: dr WriteRune_def WriteString_twice)
qed

lemma writeElem_row:
  assumes "Comma w = CHR '',''" and "shapeOK T" and "recordOK fl T rec"
  shows "writeElem fl w T rec = (None, WriteString w (butlast (rowText fl rec)))"
proof -
  from assms(3) obtain vs where rec: "rec = StructV vs"
    and vals: "list_all2 (valueOK fl) (VisibleFields T) vs"
    by (auto simp: recordOK_def split: gval.splits)
  from assms(2) have "MarshalCSV T = None" "list_all fieldOK (VisibleFields T)"
    "distinct (map Name (VisibleFields T))"
    by (simp_all add: shapeOK_def)
  with writeElem_fields_cells [OF assms(1) _ _ vals, of "[]" "VisibleFields T" 0] rec
  show ?thesis
    by (simp add: writeElem_def rowText_def)
qed

lemma writeElems_rows:
  assumes "shapeOK T" and "list_all (recordOK fl T) recs"
    and "Comma w = CHR '',''" and "\<not> UseCRLF w"
  shows "writeElems fl w T recs = (None, WriteString w (concat (map (rowText fl) recs)))"
  using assms(2-)
proof (induction recs arbitrary: w)
  case Nil
  then show ?case by (simp add: WriteString_Nil)
next
  case (Cons rec recs)
  from Cons.prems have rec: "recordOK fl T rec" and recs: "list_all (recordOK fl T) recs"
    by simp_all
  from rec have row: "rowText fl rec = butlast (rowText fl rec) @ [EOL]"
    by (auto simp: recordOK_def rowText_def split: gval.splits)
  let ?w1 = "WriteString (WriteString w (butlast (rowText fl rec))) (lineEnd w)"
  have "Comma ?w1 = CHR '',''" and "\<not> UseCRLF ?w1"
    using Cons.prems by (simp_all add: WriteString_config)
  from Cons.IH [OF recs this]
  have "writeElems fl ?w1 T recs = (None, WriteString ?w1 (concat (map (rowText fl) recs)))" .
  moreover have "lineEnd w = [EOL]"
    using Cons.prems by (simp add: lineEnd_def)
  ultimately show ?case
    using writeElem_row [OF Cons.prems(2) assms(1) rec] row
    by (simp add: WriteString_twice)
qed

lemma WriteCSV_text:
  assumes "shapeOK T" and "recs \<noteq> []" and "list_all (recordOK fl T) recs"
  shows "WriteCSV fl NewWriter T recs =
           (None, NewWriter\<lparr>written := headerText T @ concat (map (rowText fl) recs)\<rparr>)"
proof -
  from assms(2,3) obtain vs where first: "recs ! 0 = StructV vs"
    by (cases recs) (auto simp: recordOK_def split: gval.splits)
  from assms(1) have shape: "Header T = None" "list_all fieldOK (VisibleFields T)"
    "list_all cellOK (map headerName (VisibleFields T))"
    by (simp_all add: shapeOK_def lineOK_def)
  have c: "Comma NewWriter = CHR '',''" by (simp add: NewWriter_def)
  from writeHeader_fields_names [OF c shape(2,3), of 0] assms(2) first shape(1)
  have h: "writeHeader NewWriter T recs =
             (None, WriteString NewWriter (join (CHR '','') (map headerName (VisibleFields T))))"
    by (simp add: writeHeader_def)
  let ?w1 = "WriteString (WriteString NewWriter (join (CHR '','') (map headerName (VisibleFields T))))
               (lineEnd NewWriter)"
  have "Comma ?w1 = CHR '',''" and "\<not> UseCRLF ?w1"
    by (simp_all add: WriteString_config NewWriter_def)
  from writeElems_rows [OF assms(1,3) this]
  have "writeElems fl ?w1 T recs = (None, WriteString ?w1 (concat (map (rowText fl) recs)))" .
  with h show ?thesis
    by (simp add: WriteCSV_def headerText_def)
       (simp add: NewWriter_def WriteString_def Flush_def lineEnd_def)
qed

section \<open>What the reader reads back\<close>

lemma setField_parser_plain:
  "fieldOK (fs ! k) \<Longrightarrow> k < length fs \<Longrightarrow> k < length item \<Longrightarrow>
     setField_parser fs item k value = Inr item"
  by (simp add: setField_parser_def fieldOK_def)

lemma bits_int_kind:
  "k \<in> {IntK, Int8K, Int16K, Int32K, Int64K, UintK, Uint8K, Uint16K, Uint32K, Uint64K}
   \<Longrightarrow> 0 < bits k \<and> bits k \<le> 64"
  by (auto simp: bits_def)

lemma setField_switch_string:
  assumes "Kind (Type (fs ! k)) = StringK"
    and "\<not> HasSuffix s [CHR 0x22]" and "\<not> HasPrefix s [CHR 0x22]"
  shows "setField_switch fl fs item k s = Inr (item[k := StringV s])"
  using assms by (simp add: setField_switch_def TrimSuffix_def TrimPrefix_def)

lemma setField_switch_bool:
  assumes "Kind (Type (fs ! k)) = BoolK"
  shows "setField_switch fl fs item k (formatBool b) = Inr (item[k := BoolV b])"
  using assms by (simp add: setField_switch_def ParseBool_formatBool)

lemma setField_switch_int:
  assumes kind: "Kind (Type (fs ! k)) \<in> {IntK, Int8K, Int16K, Int32K, Int64K}"
    and lo: "- (2 ^ (bits (Kind (Type (fs ! k))) - 1)) \<le> i"
    and hi: "i < 2 ^ (bits (Kind (Type (fs ! k))) - 1)"
  shows "setField_switch fl fs item k (formatInt i) = Inr (item[k := IntV i])"
proof -
  let ?b = "bits (Kind (Type (fs ! k)))"
  from kind bits_int_kind [of "Kind (Type (fs ! k))"] have "?b - 1 \<le> 63" by auto
  then have "(2::int) ^ (?b - 1) \<le> 2 ^ 63" by (intro power_increasing) simp_all
  with lo hi have "- (2 ^ 63) \<le> i" and "i < 2 ^ 63" by linarith+
  then have p: "ParseInt (TrimSpace (formatInt i)) = Inr i"
    by (simp add: TrimSpace_formatInt ParseInt_formatInt)
  from lo hi have "signed_take_bit (?b - 1) i = i"
    by (intro signed_take_bit_int_eq_self) simp_all
  with kind p show ?thesis
    by (auto simp: setField_switch_def SetInt_def)
qed

lemma setField_switch_uint:
  assumes kind: "Kind (Type (fs ! k)) \<in> {UintK, Uint8K, Uint16K, Uint32K, Uint64K}"
    and hi: "n < 2 ^ bits (Kind (Type (fs ! k)))"
  shows "setField_switch fl fs item k (formatUint n) = Inr (item[k := UintV n])"
proof -
  let ?b = "bits (Kind (Type (fs ! k)))"
  from kind bits_int_kind [of "Kind (Type (fs ! k))"] have "?b \<le> 64" by auto
  then have "(2::nat) ^ ?b \<le> 2 ^ 64" by (intro power_increasing) simp_all
  with hi have "n < 2 ^ 64" by linarith
  then have p: "ParseUint (TrimSpace (formatUint n)) = Inr n"
    by (simp add: TrimSpace_formatUint ParseUint_formatUint)
  from hi have "take_bit ?b n = n"
    by (simp add: take_bit_nat_eq_self)
  with kind p show ?thesis
    by (auto simp: setField_switch_def SetUint_def)
qed

lemma setField_switch_float:
  assumes kind: "Kind (Type (fs ! k)) \<in> {Float32K, Float64K}"
    and "ParseFloat fl (TrimSpace (FormatFloat fl x)) = Inr x"
    and "Kind (Type (fs ! k)) = Float32K \<longrightarrow> toFloat32 fl x = x"
  shows "setField_switch fl fs item k (FormatFloat fl x) = Inr (item[k := FloatV x])"
  using assms by (auto simp: setField_switch_def SetFloat_def)

lemma setField_cell:
  assumes "fieldOK (fs ! k)" and "k < length fs" and "k < length item"
    and "valueOK fl (fs ! k) v"
  shows "setField fl fs item k (cellText fl v) = Inr (item[k := v])"
proof -
  have "setField_switch fl fs item k (cellText fl v) = Inr (item[k := v])"
  proof (cases v)
    case (StringV s)
    with assms(4) show ?thesis
      by (simp add: valueOK_def cellText_def setField_switch_string)
  next
    case (IntV i)
    with assms(4) show ?thesis
      by (simp add: valueOK_def cellText_def setField_switch_int)
  next
    case (UintV n)
    with assms(4) show ?thesis
      by (simp add: valueOK_def cellText_def setField_switch_uint)
  next
    case (BoolV b)
    with assms(4) show ?thesis
      by (simp add: valueOK_def cellText_def setField_switch_bool)
  next
    case (FloatV x)
    with assms(4) show ?thesis
      by (simp add: valueOK_def cellText_def setField_switch_float)
  qed (use assms(4) in \<open>simp_all add: valueOK_def\<close>)
  with setField_parser_plain [OF assms(1-3)] show ?thesis
    by (simp add: setField_def)
qed

lemma fill_next:
  assumes "k < length vs" and "length item = length vs"
  shows "(take k vs @ drop k item)[k := vs ! k] = take (Suc k) vs @ drop (Suc k) item"
proof -
  from assms have "drop k item = item ! k # drop (Suc k) item"
    by (simp add: Cons_nth_drop_Suc)
  with assms show ?thesis
    by (simp add: list_update_append take_Suc_conv_app_nth)
qed

lemma bindFields_all:
  assumes ok: "list_all fieldOK fs"
    and res: "map (\<lambda>f. getField fs (headerName f)) fs = map Inr [0..<length fs]"
    and vals: "list_all2 (valueOK fl) fs vs"
    and len: "length item = length fs"
  shows "k \<le> length fs \<Longrightarrow>
           bindFields fl fs k (map headerName (drop k fs)) (map (cellText fl) vs)
             (take k vs @ drop k item) = Inr vs"
proof (induction "length fs - k" arbitrary: k)
  case 0
  with vals len show ?case by (simp add: list_all2_lengthD [symmetric])
next
  case (Suc m)
  then have k: "k < length fs" by simp
  from vals have lvs: "length vs = length fs" by (simp add: list_all2_lengthD)
  from k have dr: "drop k fs = fs ! k # drop (Suc k) fs" by (simp add: Cons_nth_drop_Suc)
  from res k have "map (\<lambda>f. getField fs (headerName f)) fs ! k = map Inr [0..<length fs] ! k"
    by simp
  with k have g: "getField fs (headerName (fs ! k)) = Inr k" by simp
  from ok k have f: "fieldOK (fs ! k)" by (simp add: list_all_length)
  from vals k have v: "valueOK fl (fs ! k) (vs ! k)" by (simp add: list_all2_conv_all_nth)
  from k lvs len have "k < length (take k vs @ drop k item)" by simp
  from setField_cell [OF f k this v] fill_next [of k vs item] k lvs len
  have s: "setField fl fs (take k vs @ drop k item) k (cellText fl (vs ! k))
             = Inr (take (Suc k) vs @ drop (Suc k) item)"
    by simp
  from Suc.hyps(2) k have "m = length fs - Suc k" and "Suc k \<le> length fs" by simp_all
  from Suc.hyps(1) [OF this]
  have "bindFields fl fs (Suc k) (map headerName (drop (Suc k) fs)) (map (cellText fl) vs)
          (take (Suc k) vs @ drop (Suc k) item) = Inr vs" .
  with g s k lvs show ?case by (simp add: dr)
qed

lemma readRow_cells:
  assumes "shapeOK T" and "recordOK fl T (StructV vs)" and "WithHeader r"
  shows "readRow fl r T (map headerName (VisibleFields T)) (map (cellText fl) vs) = Inr vs"
proof -
  from assms(1) have s: "UnmarshalCSVWithHeader T = None" "list_all fieldOK (VisibleFields T)"
    "map (\<lambda>f. getField (VisibleFields T) (headerName f)) (VisibleFields T)
       = map Inr [0..<length (VisibleFields T)]"
    by (simp_all add: shapeOK_def)
  from assms(2) have v: "list_all2 (valueOK fl) (VisibleFields T) vs"
    by (simp add: recordOK_def)
  have "length (New T) = length (VisibleFields T)" by (simp add: New_def)
  from bindFields_all [OF s(2,3) v this, of 0] s(1) assms(3) show ?thesis
    by (simp add: readRow_def)
qed

lemma readRows_rows:
  assumes "shapeOK T" and "WithHeader r" and "Comma r = CHR '',''" and "\<not> UseCRLF r"
  shows "list_all (recordOK fl T) recs \<Longrightarrow>
           readRows fl r T (map headerName (VisibleFields T)) (concat (map (rowText fl) recs)) acc
             = (Inr (acc @ recs), [])"
proof (induction recs arbitrary: acc)
  case Nil
  then show ?case by (simp add: readRows_EOF)
next
  case (Cons rec recs)
  from Cons.prems obtain vs where rec: "rec = StructV vs" and ok: "recordOK fl T (StructV vs)"
    and line: "lineOK (map (cellText fl) vs)"
    by (cases rec) (auto simp: recordOK_def)
  let ?row = "join (CHR '','') (map (cellText fl) vs)"
  let ?rest = "concat (map (rowText fl) recs)"
  from line have "EOL \<notin> set ?row" by (simp add: lineOK_def join_no_EOL)
  then have rs: "ReadString (?row @ EOL # ?rest) EOL = (?row @ [EOL], None, ?rest)"
    by (rule ReadString_first_line)
  from Cons.prems have "list_all (recordOK fl T) recs" by simp
  from Cons.IH [OF this]
  have ih: "readRows fl r T (map headerName (VisibleFields T)) ?rest (acc @ [StructV vs])
              = (Inr ((acc @ [StructV vs]) @ recs), [])" .
  have "readRows fl r T (map headerName (VisibleFields T)) (?row @ EOL # ?rest) acc
          = (Inr (acc @ rec # recs), [])"
    by (subst readRows.simps)
       (simp add: rs splitLine_join [OF line assms(3,4)] readRow_cells [OF assms(1) ok assms(2)]
          ih rec)
  moreover from rec have "rowText fl rec = ?row @ [EOL]" by (simp add: rowText_def)
  ultimately show ?case by simp
qed

lemma ReadCSV_text:
  assumes "shapeOK T" and "list_all (recordOK fl T) recs"
  shows "ReadCSV fl (NewReader (headerText T @ concat (map (rowText fl) recs))) T = (Inr recs, [])"
proof -
  let ?r = "NewReader (headerText T @ concat (map (rowText fl) recs))"
  let ?names = "map headerName (VisibleFields T)"
  let ?rest = "concat (map (rowText fl) recs)"
  have cfg: "WithHeader ?r" "Comma ?r = CHR '',''" "\<not> UseCRLF ?r"
    and un: "unread ?r = join (CHR '','') ?names @ EOL # ?rest"
    by (simp_all add: NewReader_def headerText_def)
  from assms(1) have line: "lineOK ?names" by (simp add: shapeOK_def)
  then have "EOL \<notin> set (join (CHR '','') ?names)" by (simp add: lineOK_def join_no_EOL)
  then have "ReadString (unread ?r) EOL = (join (CHR '','') ?names @ [EOL], None, ?rest)"
    unfolding un by (rule ReadString_first_line)
  with cfg(1) readRows_rows [OF assms(1) cfg assms(2), of "[]"] show ?thesis
    by (simp add: ReadCSV_def splitLine_join [OF line cfg(2,3)])
qed

section \<open>The round trip\<close>

text \<open>
  Claim C1, as amended. Let the element type be a struct without record-level capabilities
  whose fields are all exported, not embedded and not excluded, of string, boolean, signed
  or unsigned integer or floating-point kind without custom rendering or parsing, with
  distinct names, and whose column names hold neither the delimiter nor the end of line and
  resolve back to their own fields. Let the collection be non-empty, and in every record
  let every cell hold neither the delimiter nor the end of line, no string begin or end with
  a double quote, every integer lie in the range of its kind, and every floating-point
  number be parsed back by the library from its own rendering; with two columns or more,
  let the last column name and the last cell of every record be non-empty. Then, under the
  default configuration, \<^verbatim>\<open>WriteCSV\<close> succeeds, and \<^verbatim>\<open>ReadCSV\<close> on the text it wrote returns
  the original collection and leaves nothing unread.
\<close>

theorem WriteCSV_ReadCSV_round_trip:
  assumes "shapeOK T" and "recs \<noteq> []" and "list_all (recordOK fl T) recs"
  shows "fst (WriteCSV fl NewWriter T recs) = None
         \<and> ReadCSV fl (NewReader (written (snd (WriteCSV fl NewWriter T recs)))) T = (Inr recs, [])"
  using WriteCSV_text [OF assms] ReadCSV_text [OF assms(1,3)] by simp

lemmas ok_defs = shapeOK_def fieldOK_def lineOK_def cellOK_def recordOK_def valueOK_def headerName_def
  cellText_def

text \<open>Two records of \<^verbatim>\<open>struct { Name string; Age int }\<close>, one with an empty name, are
  written as three lines and read back as they were.\<close>

theorem WriteCSV_ReadCSV_round_trip_witness:
  "shapeOK person
   \<and> [StructV [StringV ''Ada'', IntV 36], StructV [StringV '''', IntV (- 7)]] \<noteq> []
   \<and> list_all (recordOK exampleFloats person)
         [StructV [StringV ''Ada'', IntV 36], StructV [StringV '''', IntV (- 7)]]
   \<and> written (snd (WriteCSV exampleFloats NewWriter person
         [StructV [StringV ''Ada'', IntV 36], StructV [StringV '''', IntV (- 7)]]))
       = ''Name,Age'' @ [EOL] @ ''Ada,36'' @ [EOL] @ '',-7'' @ [EOL]
   \<and> ReadCSV exampleFloats
         (NewReader (''Name,Age'' @ [EOL] @ ''Ada,36'' @ [EOL] @ '',-7'' @ [EOL])) person
       = (Inr [StructV [StringV ''Ada'', IntV 36], StructV [StringV '''', IntV (- 7)]], [])"
proof -
  have shape: "shapeOK person"
    by (simp add: ok_defs ex_defs rd_defs str_defs upt_rec)
  have recs: "list_all (recordOK exampleFloats person)
         [StructV [StringV ''Ada'', IntV 36], StructV [StringV '''', IntV (- 7)]]"
    by (simp add: ok_defs ex_defs str_defs num_defs)
  have out: "written (snd (WriteCSV exampleFloats NewWriter person
         [StructV [StringV ''Ada'', IntV 36], StructV [StringV '''', IntV (- 7)]]))
       = ''Name,Age'' @ [EOL] @ ''Ada,36'' @ [EOL] @ '',-7'' @ [EOL]"
    by (simp add: ex_defs wr_defs str_defs num_defs)
  from WriteCSV_ReadCSV_round_trip [OF shape _ recs] shape recs out show ?thesis
    by simp
qed

text \<open>
  Claim C1 as stated fails. The record whose name is \<^verbatim>\<open>Ada\<close> between double quotes has
  scalar fields that render without the delimiter; it is written without error, and read
  back with the name \<^verbatim>\<open>Ada\<close>: the reader strips one double quote at either end of a text
  cell.
\<close>

theorem WriteCSV_ReadCSV_round_trip_counterexample:
  "quotedAda \<noteq> []
   \<and> list_all (\<lambda>f. Kind (Type f) \<in> {StringK, IntK}) (VisibleFields person)
   \<and> list_all (\<lambda>c. CHR '','' \<notin> set c)
        (map (cellText exampleFloats) [StringV (CHR 0x22 # ''Ada'' @ [CHR 0x22]), IntV 36])
   \<and> fst (WriteCSV exampleFloats NewWriter person quotedAda) = None
   \<and> ReadCSV exampleFloats
        (NewReader (written (snd (WriteCSV exampleFloats NewWriter person quotedAda)))) person
       = (Inr [StructV [StringV ''Ada'', IntV 36]], [])
   \<and> [StructV [StringV ''Ada'', IntV 36]] \<noteq> quotedAda"
  by (simp add: quotedAda_def ex_defs wr_defs rd_defs str_defs num_defs cellText_def)

end
